theory Spec2Isabelle
  imports Main
begin

section \<open>PrintTable: the data model\<close>

text \<open>
  The embedding follows \<^verbatim>\<open>PrintTable.h\<close>. The struct is a record with the fields of
  the source. A \<^verbatim>\<open>std::string\<close> is a \<open>string\<close>, a list of bytes that may hold any
  byte, a \<^verbatim>\<open>std::vector\<close> is a list, and \<^verbatim>\<open>size()\<close> and \<^verbatim>\<open>length()\<close>, of type
  \<^verbatim>\<open>size_t\<close>, are \<open>length\<close>.

  The C++ \<^verbatim>\<open>int\<close> has 32 bits. Its values are modelled as the integers from \<open>INT_MIN\<close> to
  \<open>INT_MAX\<close>, with the wrap-around written out: the conversion of a \<^verbatim>\<open>size_t\<close> to
  \<^verbatim>\<open>int\<close>, and of the \<^verbatim>\<open>size_t\<close> difference \<^verbatim>\<open>width - str.length()\<close> to \<^verbatim>\<open>int\<close>, keeps
  the low 32 bits (\<open>narrow\<close>); an addition or subtraction of two \<^verbatim>\<open>int\<close>s whose result
  is outside the range is undefined behaviour and ends the run (\<open>SignedOverflow\<close>).
  Division of \<^verbatim>\<open>int\<close>s truncates towards zero.

  Each \<^verbatim>\<open>printf\<close> call is recorded as an event that carries the arguments of the call;
  \<open>written\<close> gives the bytes that the call writes to the standard output, where \<^verbatim>\<open>%s\<close>
  of \<^verbatim>\<open>str.c_str()\<close> writes the bytes of \<open>str\<close> before its first NUL. A \<open>Line\<close> is one
  call \<^verbatim>\<open>printf("%s\n", str.c_str())\<close>. The theorems about bytes keep each call below
  \<open>INT_MAX\<close> bytes, the most that the \<^verbatim>\<open>int\<close> result of \<^verbatim>\<open>printf\<close> can count.

  What ends the run of the program is an error value: an index outside a vector
  (undefined behaviour in C++) is \<open>OutOfBounds\<close>, and the construction of a
  \<^verbatim>\<open>std::string(count, ch)\<close> from a negative \<^verbatim>\<open>int\<close>, which the conversion to \<^verbatim>\<open>size_t\<close>
  turns into a count above \<^verbatim>\<open>max_size()\<close>, is \<open>LengthError\<close> (\<^verbatim>\<open>std::length_error\<close>).
\<close>

datatype error = OutOfBounds | LengthError | SignedOverflow

datatype event =
    ColumnsLocked string
  | RowArity nat string nat
  | MissingData string nat nat
  | Line string

record PrintTable =
  title :: string
  columnNames :: "string list"
  rows :: "string list list"
  startedAddingRows :: bool
  alteredState :: bool
  maxColumnWidths :: "int list"
  fullDividerStr :: string
  titleStr :: string
  columnStr :: string
  rowStrs :: "string list"

text \<open>The default-constructed struct: empty strings and vectors, both flags false.\<close>

definition newTable :: PrintTable where
  "newTable = \<lparr>title = [], columnNames = [], rows = [],
     startedAddingRows = False, alteredState = False,
     maxColumnWidths = [], fullDividerStr = [], titleStr = [], columnStr = [],
     rowStrs = []\<rparr>"

section \<open>Helpers for errors, vectors and integers\<close>

definition andThen :: "error + 'a \<Rightarrow> ('a \<Rightarrow> error + 'b) \<Rightarrow> error + 'b" where
  "andThen m f = (case m of Inl e \<Rightarrow> Inl e | Inr x \<Rightarrow> f x)"

text \<open>A loop whose body may fail: the first failure ends it.\<close>

fun foldE :: "('a \<Rightarrow> 's \<Rightarrow> error + 's) \<Rightarrow> 'a list \<Rightarrow> 's \<Rightarrow> error + 's" where
  "foldE f [] s = Inr s"
| "foldE f (x # xs) s = andThen (f x s) (foldE f xs)"

text \<open>\<^verbatim>\<open>v[i]\<close> read and written, with the range check that C++ leaves out.\<close>

definition at :: "'a list \<Rightarrow> nat \<Rightarrow> error + 'a" where
  "at xs i = (if i < length xs then Inr (xs ! i) else Inl OutOfBounds)"

definition put :: "'a list \<Rightarrow> nat \<Rightarrow> 'a \<Rightarrow> error + 'a list" where
  "put xs i v = (if i < length xs then Inr (xs[i := v]) else Inl OutOfBounds)"

text \<open>\<^verbatim>\<open>v.resize(n)\<close>: cut to \<open>n\<close> elements, or filled up with the default value.\<close>

definition resize :: "nat \<Rightarrow> 'a \<Rightarrow> 'a list \<Rightarrow> 'a list" where
  "resize n d xs = take n xs @ replicate (n - length xs) d"

text \<open>The range of the 32-bit \<^verbatim>\<open>int\<close>.\<close>

definition INT_MAX :: int where
  "INT_MAX = 2147483647"

definition INT_MIN :: int where
  "INT_MIN = - 2147483648"

text \<open>
  The conversion of an integer value to \<^verbatim>\<open>int\<close>: the value modulo \<open>2 ^ 32\<close> that lies
  in the range of \<^verbatim>\<open>int\<close>. It models the narrowing of a \<^verbatim>\<open>size_t\<close>, and of a difference
  computed in \<^verbatim>\<open>size_t\<close>, whose arithmetic is modulo \<open>2 ^ 64\<close>.
\<close>

definition narrow :: "int \<Rightarrow> int" where
  "narrow n = (n + 2147483648) mod 4294967296 - 2147483648"

text \<open>The result of an addition or subtraction of two \<^verbatim>\<open>int\<close>s, undefined outside the range.\<close>

definition intResult :: "int \<Rightarrow> error + int" where
  "intResult n = (if INT_MIN \<le> n \<and> n \<le> INT_MAX then Inr n else Inl SignedOverflow)"

text \<open>C++ division of \<^verbatim>\<open>int\<close>s: the quotient is truncated towards zero.\<close>

definition cdiv :: "int \<Rightarrow> int \<Rightarrow> int" where
  "cdiv a b = (if (a < 0) = (b < 0) then \<bar>a\<bar> div \<bar>b\<bar> else - (\<bar>a\<bar> div \<bar>b\<bar>))"

text \<open>\<^verbatim>\<open>std::string(count, ch)\<close> with an \<^verbatim>\<open>int\<close> count.\<close>

definition mkString :: "int \<Rightarrow> char \<Rightarrow> error + string" where
  "mkString count ch = (if count < 0 then Inl LengthError else Inr (replicate (nat count) ch))"

section \<open>The mutators\<close>

definition SetTitle :: "string \<Rightarrow> PrintTable \<Rightarrow> event list \<times> PrintTable" where
  "SetTitle t s = ([], s\<lparr>title := t, alteredState := True\<rparr>)"

definition AddColumn :: "string \<Rightarrow> PrintTable \<Rightarrow> event list \<times> PrintTable" where
  "AddColumn columnName s =
     (if startedAddingRows s then ([ColumnsLocked (title s)], s)
      else ([], s\<lparr>columnNames := columnNames s @ [columnName], alteredState := True\<rparr>))"

definition AddRow :: "string list \<Rightarrow> PrintTable \<Rightarrow> event list \<times> PrintTable" where
  "AddRow row s =
     (if length row \<noteq> length (columnNames s)
      then ([RowArity (length row) (title s) (length (columnNames s))], s)
      else ([], s\<lparr>rows := rows s @ [row], startedAddingRows := True, alteredState := True\<rparr>))"

text \<open>The range-for loop of \<^verbatim>\<open>AddRows\<close>: the message, if any, and then the \<^verbatim>\<open>push_back\<close>.\<close>

fun AddRows_loop :: "string list list \<Rightarrow> event list \<times> PrintTable \<Rightarrow> event list \<times> PrintTable" where
  "AddRows_loop [] (out, s) = (out, s)"
| "AddRows_loop (row # rest) (out, s) =
     AddRows_loop rest
       (if length row \<noteq> length (columnNames s)
        then out @ [RowArity (length row) (title s) (length (columnNames s))]
        else out,
        s\<lparr>rows := rows s @ [row]\<rparr>)"

definition AddRows :: "string list list \<Rightarrow> PrintTable \<Rightarrow> event list \<times> PrintTable" where
  "AddRows rs s =
     (case AddRows_loop rs ([], s) of
        (out, s') \<Rightarrow> (out, s'\<lparr>startedAddingRows := True, alteredState := True\<rparr>))"

definition Reset :: "PrintTable \<Rightarrow> PrintTable" where
  "Reset s = s\<lparr>title := [], columnNames := resize 0 [] (columnNames s),
     rows := resize 0 [] (rows s), maxColumnWidths := resize 0 0 (maxColumnWidths s),
     startedAddingRows := False, alteredState := True\<rparr>"

section \<open>Print\<close>

subsection \<open>The width of each column\<close>

definition initWidth :: "string list \<Rightarrow> nat \<Rightarrow> int list \<Rightarrow> error + int list" where
  "initWidth cn i ws = andThen (at cn i) (\<lambda>name. put ws i (narrow (int (length name))))"

definition scanCell :: "string list list \<Rightarrow> nat \<Rightarrow> nat \<Rightarrow> int list \<Rightarrow> error + int list" where
  "scanCell rs r c ws =
     andThen (at rs r) (\<lambda>row.
     andThen (at row c) (\<lambda>cell.
     andThen (at ws c) (\<lambda>w.
       if narrow (int (length cell)) > w then put ws c (narrow (int (length cell)))
       else Inr ws)))"

definition scanRow :: "string list list \<Rightarrow> nat \<Rightarrow> nat \<Rightarrow> int list \<Rightarrow> error + int list" where
  "scanRow rs n r ws = foldE (scanCell rs r) [0..<n] ws"

definition computeWidths :: "string list \<Rightarrow> string list list \<Rightarrow> int list \<Rightarrow> error + int list" where
  "computeWidths cn rs ws0 =
     andThen (foldE (initWidth cn) [0..<length cn] (resize (length cn) 0 ws0)) (\<lambda>ws.
     foldE (scanRow rs (length cn)) [0..<length rs] ws)"

subsection \<open>The width of the table\<close>

text \<open>\<^verbatim>\<open>tableWidth += width + 3\<close>: the sum \<^verbatim>\<open>width + 3\<close> first, then the sum with \<^verbatim>\<open>tableWidth\<close>.\<close>

definition addWidth :: "int \<Rightarrow> int \<Rightarrow> error + int" where
  "addWidth width tableWidth =
     andThen (intResult (width + 3)) (\<lambda>x. intResult (tableWidth + x))"

definition tableWidthOf :: "int list \<Rightarrow> error + int" where
  "tableWidthOf ws =
     andThen (foldE addWidth ws 0) (\<lambda>tableWidth. intResult (tableWidth + 1))"

subsection \<open>The title line\<close>

text \<open>
  \<^verbatim>\<open>(tableWidth - 4) - title.length()\<close>: the subtraction of 4 is one of \<^verbatim>\<open>int\<close>s, the
  second one is computed in \<^verbatim>\<open>size_t\<close> and converted to \<^verbatim>\<open>int\<close>.
\<close>

definition titleLengthDiff :: "int \<Rightarrow> string \<Rightarrow> error + int" where
  "titleLengthDiff tableWidth t =
     andThen (intResult (tableWidth - 4)) (\<lambda>x. Inr (narrow (x - int (length t))))"

definition titleNumPreSpace :: "int \<Rightarrow> string \<Rightarrow> error + int" where
  "titleNumPreSpace tableWidth t =
     andThen (titleLengthDiff tableWidth t) (\<lambda>lengthDiff. Inr (cdiv lengthDiff 2))"

definition titleNumPostSpace :: "int \<Rightarrow> string \<Rightarrow> error + int" where
  "titleNumPostSpace tableWidth t =
     andThen (titleLengthDiff tableWidth t) (\<lambda>lengthDiff.
     andThen (intResult (lengthDiff + 1)) (\<lambda>x. Inr (cdiv x 2)))"

definition mkTitleStr :: "int \<Rightarrow> string \<Rightarrow> error + string" where
  "mkTitleStr tableWidth t =
     andThen (titleNumPreSpace tableWidth t) (\<lambda>numPreSpace.
     andThen (titleNumPostSpace tableWidth t) (\<lambda>numPostSpace.
     andThen (mkString numPreSpace CHR '' '') (\<lambda>preStr.
     andThen (mkString numPostSpace CHR '' '') (\<lambda>postStr.
       Inr (''| '' @ preStr @ t @ postStr @ '' |'')))))"

subsection \<open>The line of column names\<close>

definition columnSeg :: "string list \<Rightarrow> int list \<Rightarrow> nat \<Rightarrow> string \<Rightarrow> error + string" where
  "columnSeg cn ws i acc =
     andThen (at cn i) (\<lambda>columnName.
     andThen (at ws i) (\<lambda>w.
       let lengthDiff = narrow (w - int (length columnName)) in
       if lengthDiff > 0 then
         andThen (intResult (lengthDiff + 1)) (\<lambda>x.
         andThen (mkString (cdiv lengthDiff 2) CHR '' '') (\<lambda>preStr.
         andThen (mkString (cdiv x 2) CHR '' '') (\<lambda>postStr.
           Inr (acc @ ''| '' @ preStr @ columnName @ postStr @ '' ''))))
       else Inr (acc @ ''| '' @ columnName @ '' '')))"

definition mkColumnStr :: "string list \<Rightarrow> int list \<Rightarrow> error + string" where
  "mkColumnStr cn ws =
     andThen (foldE (columnSeg cn ws) [0..<length cn] []) (\<lambda>acc. Inr (acc @ ''|''))"

subsection \<open>The line of each row\<close>

definition rowSeg :: "string list list \<Rightarrow> int list \<Rightarrow> nat \<Rightarrow> nat \<Rightarrow> string list \<Rightarrow> error + string list" where
  "rowSeg rs ws r e strs =
     andThen (at rs r) (\<lambda>row.
     andThen (at row e) (\<lambda>elementData.
     andThen (at ws e) (\<lambda>w.
       let lengthDiff = narrow (w - int (length elementData)) in
       andThen (intResult (lengthDiff + 1)) (\<lambda>x.
       andThen (mkString (cdiv lengthDiff 2) CHR '' '') (\<lambda>preStr.
       andThen (mkString (cdiv x 2) CHR '' '') (\<lambda>postStr.
       andThen (at strs r) (\<lambda>cur.
         put strs r (cur @ ''| '' @ preStr @ elementData @ postStr @ '' ''))))))))"

definition rowLine :: "string list list \<Rightarrow> int list \<Rightarrow> nat \<Rightarrow> string list \<Rightarrow> error + string list" where
  "rowLine rs ws r strs =
     andThen (at rs r) (\<lambda>row.
     andThen (foldE (rowSeg rs ws r) [0..<length row] strs) (\<lambda>strs'.
     andThen (at strs' r) (\<lambda>cur. put strs' r (cur @ ''|''))))"

definition mkRowStrs :: "string list list \<Rightarrow> int list \<Rightarrow> error + string list" where
  "mkRowStrs rs ws = foldE (rowLine rs ws) [0..<length rs] (replicate (length rs) [])"

subsection \<open>Building the format data and printing\<close>

definition buildFormat :: "PrintTable \<Rightarrow> error + PrintTable" where
  "buildFormat s =
     andThen (computeWidths (columnNames s) (rows s) (maxColumnWidths s)) (\<lambda>ws.
     andThen (tableWidthOf ws) (\<lambda>tableWidth.
     andThen (mkString tableWidth CHR ''-'') (\<lambda>divider.
     andThen (mkTitleStr tableWidth (title s)) (\<lambda>tstr.
     andThen (mkColumnStr (columnNames s) ws) (\<lambda>cstr.
     andThen (mkRowStrs (rows s) ws) (\<lambda>rstrs.
       Inr (s\<lparr>maxColumnWidths := ws, fullDividerStr := divider, titleStr := tstr,
              columnStr := cstr, rowStrs := rstrs\<rparr>)))))))"

definition emitTable :: "PrintTable \<Rightarrow> event list" where
  "emitTable s =
     [Line (fullDividerStr s), Line (titleStr s), Line (fullDividerStr s),
      Line (columnStr s), Line (fullDividerStr s)]
     @ map Line (rowStrs s) @ [Line (fullDividerStr s)]"

definition Print :: "PrintTable \<Rightarrow> error + (event list \<times> PrintTable)" where
  "Print s =
     (if title s = [] \<or> columnNames s = [] \<or> rows s = []
      then Inr ([MissingData (title s) (length (columnNames s)) (length (rows s))], s)
      else andThen (if alteredState s then buildFormat s else Inr s) (\<lambda>s'.
             Inr (emitTable s', s'\<lparr>alteredState := False\<rparr>)))"

section \<open>The bytes on the standard output\<close>

text \<open>\<^verbatim>\<open>str.c_str()\<close> read as a C string: the bytes before the first NUL.\<close>

definition c_str :: "string \<Rightarrow> string" where
  "c_str str = takeWhile (\<lambda>c. c \<noteq> CHR 0x00) str"

text \<open>\<^verbatim>\<open>%lu\<close>: the decimal digits of a number.\<close>

function decimal :: "nat \<Rightarrow> string" where
  "decimal n =
     (if n < 10 then [''0123456789'' ! n]
      else decimal (n div 10) @ [''0123456789'' ! (n mod 10)])"
  by pat_completeness auto
termination
  by (relation "measure (\<lambda>n. n)") auto

text \<open>What each \<^verbatim>\<open>printf\<close> call writes, format string by format string.\<close>

fun written :: "event \<Rightarrow> string" where
  "written (ColumnsLocked t) =
     ''Table '' @ [CHR 0x27] @ c_str t @ [CHR 0x27]
     @ '' already has rows added: additional columns cannot be added.'' @ [CHR 0x0A]"
| "written (RowArity n t k) =
     ''Trying to add row with '' @ decimal n @ '' elements while table '' @ [CHR 0x27]
     @ c_str t @ [CHR 0x27] @ '' requires '' @ decimal k @ '' elements per row.''
     @ [CHR 0x0A]"
| "written (MissingData t n k) =
     ''Missing some necessary data to print table:'' @ [CHR 0x0A, CHR 0x09]
     @ ''Title: '' @ [CHR 0x27] @ c_str t @ [CHR 0x27] @ '' (must not be empty)''
     @ [CHR 0x0A, CHR 0x09] @ ''Number of columns: '' @ decimal n @ '' (min=1)''
     @ [CHR 0x0A, CHR 0x09] @ ''Number of rows: '' @ decimal k @ '' (min=1)'' @ [CHR 0x0A]"
| "written (Line str) = c_str str @ [CHR 0x0A]"

definition stdoutOf :: "event list \<Rightarrow> string" where
  "stdoutOf out = concat (map written out)"

text \<open>
  The lines of a text: each line break ends a line, and bytes after the last line break
  are a last line.
\<close>

fun splitLines :: "string \<Rightarrow> string \<Rightarrow> string list" where
  "splitLines cur [] = (if cur = [] then [] else [cur])"
| "splitLines cur (c # cs) =
     (if c = CHR 0x0A then cur # splitLines [] cs else splitLines (cur @ [c]) cs)"

definition stdoutLines :: "event list \<Rightarrow> string list" where
  "stdoutLines out = splitLines [] (stdoutOf out)"

text \<open>A string with no line break and no NUL in it, and a table of such strings.\<close>

definition plainText :: "string \<Rightarrow> bool" where
  "plainText str \<longleftrightarrow> CHR 0x0A \<notin> set str \<and> CHR 0x00 \<notin> set str"

definition plainTable :: "PrintTable \<Rightarrow> bool" where
  "plainTable s \<longleftrightarrow>
     plainText (title s) \<and> list_all plainText (columnNames s)
     \<and> list_all (list_all plainText) (rows s)"


section \<open>Sequences of calls\<close>

datatype call =
    CallSetTitle string
  | CallAddColumn string
  | CallAddRow "string list"
  | CallAddRows "string list list"
  | CallPrint
  | CallReset

fun step :: "call \<Rightarrow> PrintTable \<Rightarrow> error + (event list \<times> PrintTable)" where
  "step (CallSetTitle t) s = Inr (SetTitle t s)"
| "step (CallAddColumn c) s = Inr (AddColumn c s)"
| "step (CallAddRow r) s = Inr (AddRow r s)"
| "step (CallAddRows rs) s = Inr (AddRows rs s)"
| "step CallPrint s = Print s"
| "step CallReset s = Inr ([], Reset s)"

text \<open>The tables a program can hold: a new one, and what a call that returns makes of one.\<close>

inductive reachable :: "PrintTable \<Rightarrow> bool" where
  reachable_new: "reachable newTable"
| reachable_step: "reachable s \<Longrightarrow> step c s = Inr (out, s') \<Longrightarrow> reachable s'"

text \<open>
  Running a list of calls on a table: the events of all the calls that returned, and the
  table they leave, or the error of the call that ended the run.
\<close>

fun run :: "call list \<Rightarrow> PrintTable \<Rightarrow> event list \<times> (error + PrintTable)" where
  "run [] s = ([], Inr s)"
| "run (c # cs) s =
     (case step c s of
        Inl e \<Rightarrow> ([], Inl e)
      | Inr (out, s') \<Rightarrow> (case run cs s' of (out', res) \<Rightarrow> (out @ out', res)))"

text \<open>What a caller sees of a run: the events, and the error that ended it, if any.\<close>

definition observed :: "event list \<times> (error + PrintTable) \<Rightarrow> event list \<times> error option" where
  "observed res = (fst res, case snd res of Inl e \<Rightarrow> Some e | Inr s \<Rightarrow> None)"

text \<open>
  Two tables that no sequence of calls tells apart: the same table, or two tables with the
  same title, columns, rows, lock and widths, of which the first is marked as altered
  and the second is marked as altered too or has nothing that \<open>Print\<close> would print.
\<close>

definition sameContent :: "PrintTable \<Rightarrow> PrintTable \<Rightarrow> bool" where
  "sameContent s t \<longleftrightarrow>
     title s = title t \<and> columnNames s = columnNames t \<and> rows s = rows t
     \<and> startedAddingRows s = startedAddingRows t \<and> maxColumnWidths s = maxColumnWidths t"

definition alike :: "PrintTable \<Rightarrow> PrintTable \<Rightarrow> bool" where
  "alike s t \<longleftrightarrow>
     s = t
     \<or> (sameContent s t \<and> alteredState s
        \<and> (alteredState t \<or> (title t = [] \<and> columnNames t = [] \<and> rows t = [])))"

section \<open>The layout as the specification words it\<close>

text \<open>
  The width of column \<open>i\<close>: the greatest of the length of its name and of the lengths of
  cell \<open>i\<close> of every row. The total width: the sum over the columns of the width plus 3,
  plus 1.
\<close>

definition spec_colWidth :: "string list \<Rightarrow> string list list \<Rightarrow> nat \<Rightarrow> nat" where
  "spec_colWidth cn rs i = Max (insert (length (cn ! i)) ((\<lambda>row. length (row ! i)) ` set rs))"

definition spec_totalWidth :: "string list \<Rightarrow> string list list \<Rightarrow> nat" where
  "spec_totalWidth cn rs = sum_list (map (\<lambda>i. spec_colWidth cn rs i + 3) [0..<length cn]) + 1"

definition spaces :: "nat \<Rightarrow> string" where
  "spaces n = replicate n CHR '' ''"

text \<open>
  The centering rule: a text of length \<open>L\<close> in a width \<open>W\<close> has \<open>(W - L) div 2\<close> spaces
  before it and the rest of \<open>W - L\<close> after it.
\<close>

definition spec_centre :: "nat \<Rightarrow> string \<Rightarrow> string" where
  "spec_centre W text =
     spaces ((W - length text) div 2) @ text
     @ spaces ((W - length text) - (W - length text) div 2)"

text \<open>
  The lines of the table: a line of texts, one for each column, has every text centred in
  the width of its column between \<open>| \<close> and a space, and a closing \<open>|\<close>; the title is
  centred in the total width minus 4.
\<close>

definition spec_line :: "string list \<Rightarrow> string list list \<Rightarrow> string list \<Rightarrow> string" where
  "spec_line cn rs texts =
     concat (map (\<lambda>i. ''| '' @ spec_centre (spec_colWidth cn rs i) (texts ! i) @ '' '')
               [0..<length cn]) @ ''|''"

definition spec_divider :: "string list \<Rightarrow> string list list \<Rightarrow> string" where
  "spec_divider cn rs = replicate (spec_totalWidth cn rs) CHR ''-''"

definition spec_titleLine :: "string \<Rightarrow> string list \<Rightarrow> string list list \<Rightarrow> string" where
  "spec_titleLine t cn rs = ''| '' @ spec_centre (spec_totalWidth cn rs - 4) t @ '' |''"

definition spec_render :: "string \<Rightarrow> string list \<Rightarrow> string list list \<Rightarrow> string list" where
  "spec_render t cn rs =
     [spec_divider cn rs, spec_titleLine t cn rs, spec_divider cn rs, spec_line cn rs cn,
      spec_divider cn rs]
     @ map (spec_line cn rs) rs @ [spec_divider cn rs]"

section \<open>Facts about the mutators\<close>

lemma AddRows_loop_eq:
  "AddRows_loop rs (out, s) =
     (out @ map (\<lambda>row. RowArity (length row) (title s) (length (columnNames s)))
              (filter (\<lambda>row. length row \<noteq> length (columnNames s)) rs),
      s\<lparr>rows := rows s @ rs\<rparr>)"
  by (induction rs arbitrary: out s) simp_all

lemma AddRows_eq:
  "AddRows rs s =
     (map (\<lambda>row. RowArity (length row) (title s) (length (columnNames s)))
          (filter (\<lambda>row. length row \<noteq> length (columnNames s)) rs),
      s\<lparr>rows := rows s @ rs, startedAddingRows := True, alteredState := True\<rparr>)"
  by (simp add: AddRows_def AddRows_loop_eq)

text \<open>
  Claim C3. A row whose number of cells differs from the number of columns: \<open>AddRow\<close>
  reports it and leaves the table as it was; \<open>AddRows\<close> reports it, once for each such
  row and in their order, and appends it all the same. A row with the right number of
  cells is appended by both, with no report.
\<close>

theorem C3_row_arity_mismatch:
  "(length row \<noteq> length (columnNames s) \<longrightarrow>
      AddRow row s = ([RowArity (length row) (title s) (length (columnNames s))], s))
   \<and> (length row = length (columnNames s) \<longrightarrow>
      fst (AddRow row s) = [] \<and> rows (snd (AddRow row s)) = rows s @ [row])
   \<and> rows (snd (AddRows rs s)) = rows s @ rs
   \<and> fst (AddRows rs s) =
       map (\<lambda>row. RowArity (length row) (title s) (length (columnNames s)))
           (filter (\<lambda>row. length row \<noteq> length (columnNames s)) rs)"
  by (simp add: AddRow_def AddRows_eq)

theorem C3_row_arity_mismatch_witness:
  "AddRow [''a''] (snd (AddColumn ''B'' (snd (AddColumn ''A'' newTable)))) =
     ([RowArity 1 [] 2], snd (AddColumn ''B'' (snd (AddColumn ''A'' newTable))))
   \<and> rows (snd (AddRow [''a'', ''b''] (snd (AddColumn ''B'' (snd (AddColumn ''A'' newTable))))))
       = [[''a'', ''b'']]
   \<and> rows (snd (AddRows [[''a''], [''b'', ''c'']]
               (snd (AddColumn ''B'' (snd (AddColumn ''A'' newTable))))))
       = [[''a''], [''b'', ''c'']]
   \<and> fst (AddRows [[''a''], [''b'', ''c'']]
               (snd (AddColumn ''B'' (snd (AddColumn ''A'' newTable)))))
       = [RowArity 1 [] 2]"
  using C3_row_arity_mismatch [of "[''a'']" "snd (AddColumn ''B'' (snd (AddColumn ''A'' newTable)))"
      "[[''a''], [''b'', ''c'']]"]
    C3_row_arity_mismatch [of "[''a'', ''b'']"
      "snd (AddColumn ''B'' (snd (AddColumn ''A'' newTable)))" "[]"]
  by (simp add: AddColumn_def newTable_def)

text \<open>
  Claim C5. With an empty title, or no column, or no row, \<open>Print\<close> emits the one
  diagnostic, which names the title and the two counts, emits no line of the table and
  returns the table as it was. \<open>Print\<close> right after \<open>Reset\<close> goes this way.
\<close>

theorem C5_incomplete_table:
  "(title s = [] \<or> columnNames s = [] \<or> rows s = [] \<longrightarrow>
      Print s = Inr ([MissingData (title s) (length (columnNames s)) (length (rows s))], s))
   \<and> Print (Reset s) = Inr ([MissingData [] 0 0], Reset s)"
  by (simp add: Print_def Reset_def resize_def)

theorem C5_incomplete_table_witness:
  "Print (snd (AddColumn ''A'' (snd (SetTitle ''T'' newTable)))) =
     Inr ([MissingData ''T'' 1 0], snd (AddColumn ''A'' (snd (SetTitle ''T'' newTable))))"
  using C5_incomplete_table [of "snd (AddColumn ''A'' (snd (SetTitle ''T'' newTable)))"]
  by (simp add: AddColumn_def SetTitle_def newTable_def)

text \<open>
  Claim C6. Once \<open>startedAddingRows\<close> is set, \<open>AddColumn\<close> reports that the columns are
  locked and returns the table as it was, flags included. Before that it appends the
  name to \<open>columnNames\<close> and sets \<open>alteredState\<close>.
\<close>

theorem C6_schema_locked:
  "(startedAddingRows s \<longrightarrow> AddColumn name s = ([ColumnsLocked (title s)], s))
   \<and> (\<not> startedAddingRows s \<longrightarrow>
        fst (AddColumn name s) = []
        \<and> columnNames (snd (AddColumn name s)) = columnNames s @ [name]
        \<and> alteredState (snd (AddColumn name s)))"
  by (simp add: AddColumn_def)

theorem C6_schema_locked_witness:
  "AddColumn ''B'' (snd (AddRow [''x''] (snd (AddColumn ''A'' newTable)))) =
     ([ColumnsLocked []], snd (AddRow [''x''] (snd (AddColumn ''A'' newTable))))
   \<and> columnNames (snd (AddColumn ''B'' (snd (AddColumn ''A'' newTable)))) = [''A'', ''B'']"
  using C6_schema_locked [of "snd (AddRow [''x''] (snd (AddColumn ''A'' newTable)))" "''B''"]
    C6_schema_locked [of "snd (AddColumn ''A'' newTable)" "''B''"]
  by (simp add: AddColumn_def AddRow_def newTable_def)

text \<open>
  Claim C8, as stated, fails: \<open>AddRows\<close> with the empty list of rows sets both flags of a
  new table, which were false.
\<close>

theorem C8_empty_list_counterexample:
  "\<not> startedAddingRows newTable \<and> \<not> alteredState newTable
   \<and> startedAddingRows (snd (AddRows [] newTable)) \<and> alteredState (snd (AddRows [] newTable))"
  by (simp add: AddRows_def newTable_def)

text \<open>
  Claim C8, amended. Every call of \<open>AddRows\<close> sets \<open>alteredState\<close>, the call with the empty
  list too, and after a call with at least one row \<open>startedAddingRows\<close> is set.
\<close>

theorem C8_AddRows_flags:
  "alteredState (snd (AddRows rs s))
   \<and> (rs \<noteq> [] \<longrightarrow> startedAddingRows (snd (AddRows rs s)))"
  by (simp add: AddRows_eq)

theorem C8_AddRows_flags_witness:
  "alteredState (snd (AddRows [[''x'']] newTable))
   \<and> startedAddingRows (snd (AddRows [[''x'']] newTable))"
  using C8_AddRows_flags [of "[[''x'']]" newTable]
  by simp

section \<open>Loops that may fail\<close>

text \<open>
  The rule for a counting loop: a property that holds before the loop and that every
  pass of the body keeps, without failing, holds after the loop, and the loop does not
  fail.
\<close>

lemma andThen_Inr [simp]: "andThen (Inr x) f = f x"
  by (simp add: andThen_def)

lemma andThen_Inl [simp]: "andThen (Inl e) f = Inl e"
  by (simp add: andThen_def)

lemma andThen_eq_Inr: "andThen m f = Inr y \<longleftrightarrow> (\<exists>x. m = Inr x \<and> f x = Inr y)"
  by (cases m) simp_all

lemma foldE_loop:
  assumes "P i s" and "i \<le> n"
    and body: "\<And>j t. i \<le> j \<Longrightarrow> j < n \<Longrightarrow> P j t \<Longrightarrow> \<exists>t'. f j t = Inr t' \<and> P (Suc j) t'"
  shows "\<exists>s'. foldE f [i..<n] s = Inr s' \<and> P n s'"
  using assms
proof (induction "n - i" arbitrary: i s)
  case 0
  then show ?case by simp
next
  case (Suc d)
  then have lt: "i < n" by simp
  from Suc.prems(3) [of i s] lt Suc.prems(1)
  obtain t where t: "f i s = Inr t" "P (Suc i) t" by auto
  have "\<exists>s'. foldE f [Suc i..<n] t = Inr s' \<and> P n s'"
  proof (rule Suc.hyps(1))
    show "d = n - Suc i" using Suc.hyps(2) by simp
    show "P (Suc i) t" by (rule t(2))
    show "Suc i \<le> n" using lt by simp
    show "\<exists>t'. f j u = Inr t' \<and> P (Suc j) t'" if "Suc i \<le> j" "j < n" "P j u" for j u
      using Suc.prems(3) [of j u] that by simp
  qed
  then show ?case using t(1) lt by (simp add: upt_conv_Cons)
qed

text \<open>
  The same rule for a body that may end the run, but never by an index out of range:
  then the loop does not end by an index out of range either.
\<close>

lemma foldE_in_bounds:
  assumes "P i s" and "i \<le> n"
    and body: "\<And>j t. i \<le> j \<Longrightarrow> j < n \<Longrightarrow> P j t \<Longrightarrow>
       f j t \<noteq> Inl OutOfBounds \<and> (\<forall>t'. f j t = Inr t' \<longrightarrow> P (Suc j) t')"
  shows "foldE f [i..<n] s \<noteq> Inl OutOfBounds \<and> (\<forall>s'. foldE f [i..<n] s = Inr s' \<longrightarrow> P n s')"
  using assms
proof (induction "n - i" arbitrary: i s)
  case 0
  then show ?case by simp
next
  case (Suc d)
  then have lt: "i < n" by simp
  from Suc.prems(3) [of i s] lt Suc.prems(1)
  have b: "f i s \<noteq> Inl OutOfBounds" "\<forall>t'. f i s = Inr t' \<longrightarrow> P (Suc i) t'" by auto
  show ?case
  proof (cases "f i s")
    case (Inl e)
    then show ?thesis using b(1) lt by (simp add: upt_conv_Cons)
  next
    case (Inr t)
    have "foldE f [Suc i..<n] t \<noteq> Inl OutOfBounds
        \<and> (\<forall>s'. foldE f [Suc i..<n] t = Inr s' \<longrightarrow> P n s')"
    proof (rule Suc.hyps(1))
      show "d = n - Suc i" using Suc.hyps(2) by simp
      show "P (Suc i) t" using b(2) Inr by simp
      show "Suc i \<le> n" using lt by simp
      show "f j u \<noteq> Inl OutOfBounds \<and> (\<forall>t'. f j u = Inr t' \<longrightarrow> P (Suc j) t')"
        if "Suc i \<le> j" "j < n" "P j u" for j u
        using Suc.prems(3) [of j u] that by simp
    qed
    then show ?thesis using Inr lt by (simp add: upt_conv_Cons)
  qed
qed


section \<open>The 32-bit \<^verbatim>\<open>int\<close>\<close>

lemma narrow_id: "INT_MIN \<le> n \<Longrightarrow> n \<le> INT_MAX \<Longrightarrow> narrow n = n"
  by (simp add: narrow_def INT_MIN_def INT_MAX_def)

lemma narrow_nat: "n \<le> 2147483647 \<Longrightarrow> narrow (int n) = int n"
  by (simp add: narrow_def)

lemma narrow_range: "INT_MIN \<le> narrow n \<and> narrow n \<le> INT_MAX"
proof -
  have "0 \<le> (n + 2147483648) mod 4294967296" "(n + 2147483648) mod 4294967296 < 4294967296"
    by simp_all
  then show ?thesis by (simp add: narrow_def INT_MIN_def INT_MAX_def)
qed

lemma intResult_ok: "INT_MIN \<le> n \<Longrightarrow> n \<le> INT_MAX \<Longrightarrow> intResult n = Inr n"
  by (simp add: intResult_def)

lemma intResult_Inr: "intResult n = Inr m \<longleftrightarrow> m = n \<and> INT_MIN \<le> n \<and> n \<le> INT_MAX"
  by (auto simp: intResult_def)

lemma intResult_not_oob: "intResult n \<noteq> Inl OutOfBounds"
  by (simp add: intResult_def)

lemma cdiv_nonneg: "0 \<le> d \<Longrightarrow> cdiv d 2 = d div 2"
  by (simp add: cdiv_def)

lemma cdiv_pads: "0 \<le> d \<Longrightarrow> cdiv d 2 + cdiv (d + 1) 2 = d"
  by (simp add: cdiv_def)

lemma cdiv_neg: "d < -1 \<Longrightarrow> cdiv d 2 < 0"
  by (simp add: cdiv_def)

lemma cdiv_minus_one: "cdiv (-1) 2 = 0" "cdiv 0 2 = 0"
  by (simp_all add: cdiv_def)

lemma mkString_ok: "0 \<le> n \<Longrightarrow> mkString n c = Inr (replicate (nat n) c)"
  by (simp add: mkString_def)

lemma mkString_not_oob: "mkString n c \<noteq> Inl OutOfBounds"
  by (simp add: mkString_def)

section \<open>The column widths that \<open>Print\<close> computes\<close>

lemma spec_colWidth_Nil [simp]: "spec_colWidth cn [] i = length (cn ! i)"
  by (simp add: spec_colWidth_def)

lemma spec_colWidth_snoc:
  "spec_colWidth cn (rs @ [row]) i = max (spec_colWidth cn rs i) (length (row ! i))"
proof -
  let ?A = "insert (length (cn ! i)) ((\<lambda>row. length (row ! i)) ` set rs)"
  have "spec_colWidth cn (rs @ [row]) i = Max (insert (length (row ! i)) ?A)"
    by (simp add: spec_colWidth_def insert_commute)
  also have "\<dots> = max (length (row ! i)) (Max ?A)"
    by (rule Max_insert) simp_all
  finally show ?thesis by (simp add: spec_colWidth_def max.commute)
qed

lemma spec_colWidth_ge_name: "length (cn ! i) \<le> spec_colWidth cn rs i"
  by (simp add: spec_colWidth_def)

lemma spec_colWidth_ge_cell: "row \<in> set rs \<Longrightarrow> length (row ! i) \<le> spec_colWidth cn rs i"
  by (simp add: spec_colWidth_def)

text \<open>
  When every row has at least as many cells as there are columns, the two loops of the
  width scan end without an index out of range. When moreover no name of a column and no
  cell of a column is longer than \<open>INT_MAX\<close>, they leave the widths of the
  specification, whatever the vector of widths held before.
\<close>

lemma computeWidths_total:
  assumes ar: "\<forall>row\<in>set rs. length cn \<le> length row"
  shows "\<exists>ws. computeWidths cn rs ws0 = Inr ws \<and> length ws = length cn"
proof -
  let ?n = "length cn"
  let ?P = "\<lambda>(k::nat) (t::int list). length t = ?n"
  have "\<exists>s'. foldE (initWidth cn) [0..<?n] (resize ?n 0 ws0) = Inr s' \<and> ?P ?n s'"
  proof (rule foldE_loop [where P = ?P])
    show "?P 0 (resize ?n 0 ws0)" by (simp add: resize_def)
    show "0 \<le> ?n" by simp
    show "\<exists>t'. initWidth cn j t = Inr t' \<and> ?P (Suc j) t'" if "j < ?n" "?P j t" for j t
      using that by (simp add: initWidth_def at_def put_def)
  qed
  then obtain ws1 where ws1: "foldE (initWidth cn) [0..<?n] (resize ?n 0 ws0) = Inr ws1"
    "length ws1 = ?n" by blast
  have row: "\<exists>t'. scanRow rs ?n r t = Inr t' \<and> length t' = ?n"
    if "r < length rs" "length t = ?n" for r t
  proof -
    have "\<exists>s'. foldE (scanCell rs r) [0..<?n] t = Inr s' \<and> ?P ?n s'"
    proof (rule foldE_loop [where P = ?P])
      show "?P 0 t" using that by simp
      show "0 \<le> ?n" by simp
      show "\<exists>t'. scanCell rs r j u = Inr t' \<and> ?P (Suc j) t'" if "j < ?n" "?P j u" for j u
      proof -
        have "?n \<le> length (rs ! r)" using ar \<open>r < length rs\<close> by simp
        then show ?thesis using that \<open>r < length rs\<close>
          by (auto simp: scanCell_def at_def put_def)
      qed
    qed
    then show ?thesis by (simp add: scanRow_def)
  qed
  have "\<exists>s'. foldE (scanRow rs ?n) [0..<length rs] ws1 = Inr s' \<and> ?P (length rs) s'"
  proof (rule foldE_loop [where P = ?P])
    show "?P 0 ws1" using ws1 by simp
    show "0 \<le> length rs" by simp
    show "\<exists>t'. scanRow rs ?n r t = Inr t' \<and> ?P (Suc r) t'" if "r < length rs" "?P r t" for r t
      using row that by simp
  qed
  then show ?thesis using ws1(1) by (auto simp: computeWidths_def)
qed

lemma initWidth_loop:
  assumes "length ws = length cn" and "\<forall>j<length cn. length (cn ! j) \<le> 2147483647"
  shows "\<exists>ws'. foldE (initWidth cn) [0..<length cn] ws = Inr ws' \<and> length ws' = length cn
           \<and> (\<forall>j<length cn. ws' ! j = int (length (cn ! j)))"
proof -
  let ?P = "\<lambda>k t. length t = length cn \<and> (\<forall>j<k. t ! j = int (length (cn ! j)))"
  have "\<exists>s'. foldE (initWidth cn) [0..<length cn] ws = Inr s' \<and> ?P (length cn) s'"
  proof (rule foldE_loop [where P = ?P])
    show "?P 0 ws" using assms by simp
    show "0 \<le> length cn" by simp
    show "\<exists>t'. initWidth cn j t = Inr t' \<and> ?P (Suc j) t'" if "j < length cn" "?P j t" for j t
    proof -
      have "narrow (int (length (cn ! j))) = int (length (cn ! j))"
        using assms(2) that(1) by (intro narrow_nat) simp
      then show ?thesis using that
        by (auto simp: initWidth_def at_def put_def nth_list_update less_Suc_eq)
    qed
  qed
  then show ?thesis by blast
qed

lemma scanRow_ok:
  assumes len: "length ws = n" and r: "r < length rs" and row: "n \<le> length (rs ! r)"
    and small: "\<forall>j<n. length (rs ! r ! j) \<le> 2147483647"
  shows "\<exists>ws'. scanRow rs n r ws = Inr ws' \<and> length ws' = n
           \<and> (\<forall>j<n. ws' ! j = max (ws ! j) (int (length (rs ! r ! j))))"
proof -
  let ?P = "\<lambda>k t. length t = n
     \<and> (\<forall>j<n. t ! j = (if j < k then max (ws ! j) (int (length (rs ! r ! j))) else ws ! j))"
  have "\<exists>s'. foldE (scanCell rs r) [0..<n] ws = Inr s' \<and> ?P n s'"
  proof (rule foldE_loop [where P = ?P])
    show "?P 0 ws" using len by simp
    show "0 \<le> n" by simp
    show "\<exists>t'. scanCell rs r j t = Inr t' \<and> ?P (Suc j) t'" if "j < n" "?P j t" for j t
    proof -
      have "narrow (int (length (rs ! r ! j))) = int (length (rs ! r ! j))"
        using small that(1) by (intro narrow_nat) simp
      then show ?thesis using that r row
        by (auto simp: scanCell_def at_def put_def nth_list_update less_Suc_eq)
    qed
  qed
  then show ?thesis by (auto simp: scanRow_def)
qed

lemma scanRows_ok:
  assumes len: "length ws = length cn"
    and init: "\<forall>j<length cn. ws ! j = int (length (cn ! j))"
    and ar: "\<forall>row\<in>set rs. length cn \<le> length row"
    and small: "\<forall>j<length cn. spec_colWidth cn rs j \<le> 2147483647"
  shows "\<exists>ws'. foldE (scanRow rs (length cn)) [0..<length rs] ws = Inr ws'
           \<and> length ws' = length cn
           \<and> (\<forall>j<length cn. ws' ! j = int (spec_colWidth cn rs j))"
proof -
  let ?P = "\<lambda>k t. length t = length cn
     \<and> (\<forall>j<length cn. t ! j = int (spec_colWidth cn (take k rs) j))"
  have "\<exists>s'. foldE (scanRow rs (length cn)) [0..<length rs] ws = Inr s' \<and> ?P (length rs) s'"
  proof (rule foldE_loop [where P = ?P])
    show "?P 0 ws" using len init by simp
    show "0 \<le> length rs" by simp
    show "\<exists>t'. scanRow rs (length cn) k t = Inr t' \<and> ?P (Suc k) t'"
      if "k < length rs" "?P k t" for k t
    proof -
      have row: "length cn \<le> length (rs ! k)" using ar that(1) by simp
      have "length (rs ! k ! j) \<le> 2147483647" if "j < length cn" for j
      proof -
        have "rs ! k \<in> set rs" using \<open>k < length rs\<close> by simp
        then have "length (rs ! k ! j) \<le> spec_colWidth cn rs j" by (rule spec_colWidth_ge_cell)
        then show ?thesis using small that by fastforce
      qed
      with scanRow_ok [of t "length cn" k rs] that row
      obtain t' where t': "scanRow rs (length cn) k t = Inr t'" "length t' = length cn"
        "\<forall>j<length cn. t' ! j = max (t ! j) (int (length (rs ! k ! j)))" by auto
      have "t' ! j = int (spec_colWidth cn (take (Suc k) rs) j)" if "j < length cn" for j
        using t'(3) that \<open>?P k t\<close> \<open>k < length rs\<close>
        by (simp add: take_Suc_conv_app_nth spec_colWidth_snoc)
      with t' show ?thesis by auto
    qed
  qed
  then show ?thesis by simp
qed

lemma computeWidths_ok:
  assumes ar: "\<forall>row\<in>set rs. length cn \<le> length row"
    and small: "\<forall>j<length cn. spec_colWidth cn rs j \<le> 2147483647"
  shows "computeWidths cn rs ws0 = Inr (map (\<lambda>i. int (spec_colWidth cn rs i)) [0..<length cn])"
proof -
  have "length (resize (length cn) 0 ws0) = length cn"
    by (simp add: resize_def)
  moreover have "\<forall>j<length cn. length (cn ! j) \<le> 2147483647"
  proof (intro allI impI)
    fix j assume "j < length cn"
    with small have "spec_colWidth cn rs j \<le> 2147483647" by simp
    with spec_colWidth_ge_name [of cn j rs] show "length (cn ! j) \<le> 2147483647"
      by (rule order_trans)
  qed
  ultimately obtain ws1 where
    ws1: "foldE (initWidth cn) [0..<length cn] (resize (length cn) 0 ws0) = Inr ws1"
    "length ws1 = length cn" "\<forall>j<length cn. ws1 ! j = int (length (cn ! j))"
    using initWidth_loop [of "resize (length cn) 0 ws0" cn] by blast
  from scanRows_ok [OF ws1(2) ws1(3) ar small]
  obtain ws2 where ws2: "foldE (scanRow rs (length cn)) [0..<length rs] ws1 = Inr ws2"
    "length ws2 = length cn" "\<forall>j<length cn. ws2 ! j = int (spec_colWidth cn rs j)" by blast
  have "ws2 = map (\<lambda>i. int (spec_colWidth cn rs i)) [0..<length cn]"
    using ws2(2,3) by (intro nth_equalityI) simp_all
  then show ?thesis using ws1(1) ws2(1) by (simp add: computeWidths_def)
qed



section \<open>The lines that \<open>Print\<close> builds\<close>

text \<open>
  When the total width of the specification is at most \<open>INT_MAX\<close>, the sum that \<open>Print\<close>
  computes is this width, and every column is at least four characters narrower.
\<close>

lemma spec_colWidth_le_total:
  assumes "i < length cn"
  shows "spec_colWidth cn rs i + 4 \<le> spec_totalWidth cn rs"
proof -
  have "spec_colWidth cn rs i + 3 \<in> set (map (\<lambda>i. spec_colWidth cn rs i + 3) [0..<length cn])"
    using assms by simp
  then have "spec_colWidth cn rs i + 3 \<le> sum_list (map (\<lambda>i. spec_colWidth cn rs i + 3) [0..<length cn])"
    by (intro member_le_sum_list) simp_all
  then show ?thesis by (simp add: spec_totalWidth_def)
qed

lemma foldE_addWidth:
  assumes "0 \<le> a" and "a + sum_list (map (\<lambda>w. int w + 3) ws) \<le> INT_MAX"
  shows "foldE addWidth (map int ws) a = Inr (a + sum_list (map (\<lambda>w. int w + 3) ws))"
  using assms
proof (induction ws arbitrary: a)
  case Nil
  then show ?case by simp
next
  case (Cons w ws)
  have nn: "0 \<le> sum_list (map (\<lambda>w. int w + 3) ws)"
    by (intro sum_list_nonneg) auto
  have r1: "INT_MIN \<le> int w + 3" "int w + 3 \<le> INT_MAX"
    using Cons.prems nn by (simp_all add: INT_MIN_def)
  have r2: "INT_MIN \<le> a + (int w + 3)" "a + (int w + 3) \<le> INT_MAX"
    using Cons.prems nn by (simp_all add: INT_MIN_def)
  have "addWidth (int w) a = Inr (a + (int w + 3))"
    by (simp add: addWidth_def intResult_ok r1 r2)
  moreover have "foldE addWidth (map int ws) (a + (int w + 3))
      = Inr (a + (int w + 3) + sum_list (map (\<lambda>w. int w + 3) ws))"
    using Cons.prems by (intro Cons.IH) simp_all
  ultimately show ?case by (simp add: add.assoc)
qed

lemma tableWidthOf_spec:
  assumes "spec_totalWidth cn rs \<le> 2147483647"
  shows "tableWidthOf (map (\<lambda>i. int (spec_colWidth cn rs i)) [0..<length cn])
     = Inr (int (spec_totalWidth cn rs))"
proof -
  let ?ws = "map (\<lambda>i. spec_colWidth cn rs i) [0..<length cn]"
  have s: "sum_list (map (\<lambda>w. int w + 3) xs) = int (sum_list (map (\<lambda>w. w + 3) xs))"
    for xs :: "nat list"
    by (induction xs) simp_all
  have tw: "int (spec_totalWidth cn rs) = sum_list (map (\<lambda>w. int w + 3) ?ws) + 1"
    unfolding s by (simp add: spec_totalWidth_def comp_def)
  have le: "sum_list (map (\<lambda>w. int w + 3) ?ws) + 1 \<le> INT_MAX"
    using assms unfolding tw [symmetric] by (simp add: INT_MAX_def)
  have nn: "0 \<le> sum_list (map (\<lambda>w. int w + 3) ?ws)"
    by (intro sum_list_nonneg) auto
  have "foldE addWidth (map int ?ws) 0 = Inr (0 + sum_list (map (\<lambda>w. int w + 3) ?ws))"
    using le by (intro foldE_addWidth) simp_all
  moreover have "map int ?ws = map (\<lambda>i. int (spec_colWidth cn rs i)) [0..<length cn]"
    by simp
  ultimately have "foldE addWidth (map (\<lambda>i. int (spec_colWidth cn rs i)) [0..<length cn]) 0
      = Inr (sum_list (map (\<lambda>w. int w + 3) ?ws))" by (simp add: comp_def)
  then show ?thesis
    unfolding tableWidthOf_def tw using le nn
    by (simp add: intResult_ok INT_MIN_def)
qed

section \<open>Centering\<close>

lemma pad_split:
  assumes "L \<le> W"
  shows "nat ((int W - int L) div 2) = (W - L) div 2"
    and "nat ((int W - int L + 1) div 2) = (W - L) - (W - L) div 2"
    and "(W - L) - (W - L) div 2 = (W - L + 1) div 2"
proof -
  obtain k where k: "W = L + k" using assms by (auto simp: le_iff_add)
  have a: "int W - int L = int k" "W - L = k" using k by simp_all
  have b: "int k div 2 = int (k div 2)" "(int k + 1) div 2 = int ((k + 1) div 2)"
    by (simp_all add: zdiv_int)
  have c: "k - k div 2 = (k + 1) div 2" by presburger
  show "nat ((int W - int L) div 2) = (W - L) div 2"
    unfolding a b by simp
  show "(W - L) - (W - L) div 2 = (W - L + 1) div 2"
    unfolding a by (rule c)
  show "nat ((int W - int L + 1) div 2) = (W - L) - (W - L) div 2"
    unfolding a b c by simp
qed

text \<open>
  The pads of a text of length \<open>L\<close> in a width \<open>W\<close> of the program, \<open>L \<le> W < INT_MAX\<close>:
  the difference is not changed by the conversion to \<^verbatim>\<open>int\<close>, and one more is still an
  \<^verbatim>\<open>int\<close>.
\<close>

lemma pads_in_range:
  assumes "L \<le> W" "W < 2147483647"
  shows "narrow (int W - int L) = int W - int L"
    and "intResult (int W - int L + 1) = Inr (int W - int L + 1)"
    and "mkString (cdiv (int W - int L) 2) c = Inr (replicate ((W - L) div 2) c)"
    and "mkString (cdiv (int W - int L + 1) 2) c = Inr (replicate ((W - L) - (W - L) div 2) c)"
proof -
  let ?d = "int W - int L"
  have d: "0 \<le> ?d" "?d + 1 \<le> INT_MAX" using assms by (simp_all add: INT_MAX_def)
  show "narrow ?d = ?d"
    using d by (intro narrow_id) (simp_all add: INT_MIN_def)
  show "intResult (?d + 1) = Inr (?d + 1)"
    using d by (intro intResult_ok) (simp_all add: INT_MIN_def)
  have p: "cdiv ?d 2 = ?d div 2" "cdiv (?d + 1) 2 = (?d + 1) div 2"
    using d by (simp_all add: cdiv_nonneg)
  have q: "\<not> ?d div 2 < 0" "\<not> (?d + 1) div 2 < 0"
    using d by simp_all
  show "mkString (cdiv ?d 2) c = Inr (replicate ((W - L) div 2) c)"
    unfolding p mkString_def using q(1) pad_split(1) [OF assms(1)] by simp
  show "mkString (cdiv (?d + 1) 2) c = Inr (replicate ((W - L) - (W - L) div 2) c)"
    unfolding p mkString_def using q(2) pad_split(2) [OF assms(1)] by simp
qed

lemma mkTitleStr_centre:
  assumes "length t + 4 \<le> tw" and "tw \<le> 2147483647"
  shows "titleNumPreSpace (int tw) t = Inr (int ((tw - 4 - length t) div 2))"
    and "titleNumPostSpace (int tw) t = Inr (int ((tw - 4 - length t + 1) div 2))"
    and "mkTitleStr (int tw) t = Inr (''| '' @ spec_centre (tw - 4) t @ '' |'')"
proof -
  define K where "K = tw - 4 - length t"
  have e: "int tw - 4 = int (tw - 4)" using assms by simp
  have l: "length t \<le> tw - 4" and w: "tw - 4 < 2147483647" using assms by simp_all
  have x: "intResult (int tw - 4) = Inr (int (tw - 4))"
    unfolding e using w by (intro intResult_ok) (simp_all add: INT_MIN_def INT_MAX_def)
  have k: "int (tw - 4) - int (length t) = int K"
    using l by (simp add: K_def)
  note p = pads_in_range [OF l w, unfolded k]
  have d: "titleLengthDiff (int tw) t = Inr (int K)"
    unfolding titleLengthDiff_def x using p(1) by (simp add: k)
  show pre: "titleNumPreSpace (int tw) t = Inr (int ((tw - 4 - length t) div 2))"
    unfolding titleNumPreSpace_def d K_def [symmetric] by (simp add: cdiv_nonneg zdiv_int)
  have c: "cdiv (int K + 1) 2 = int ((K + 1) div 2)"
    using zdiv_int [of "K + 1" 2] by (simp add: cdiv_nonneg)
  have "titleNumPostSpace (int tw) t = andThen (intResult (int K + 1)) (\<lambda>x. Inr (cdiv x 2))"
    unfolding titleNumPostSpace_def d by (simp only: andThen_Inr)
  also have "\<dots> = Inr (cdiv (int K + 1) 2)"
    by (simp only: p(2) andThen_Inr)
  also have "\<dots> = Inr (int ((K + 1) div 2))"
    by (simp only: c)
  finally show post: "titleNumPostSpace (int tw) t = Inr (int ((tw - 4 - length t + 1) div 2))"
    unfolding K_def .
  show "mkTitleStr (int tw) t = Inr (''| '' @ spec_centre (tw - 4) t @ '' |'')"
    unfolding mkTitleStr_def pre post K_def [symmetric]
    using pad_split(3) [OF l]
    by (simp add: mkString_def spec_centre_def spaces_def K_def)
qed

lemma columnSeg_centre:
  assumes "i < length cn" "i < length ws" "ws ! i = int W" "length (cn ! i) < W"
    "W < 2147483647"
  shows "columnSeg cn ws i acc = Inr (acc @ ''| '' @ spec_centre W (cn ! i) @ '' '')"
proof -
  have l: "length (cn ! i) \<le> W" using assms(4) by simp
  note p = pads_in_range [OF l assms(5)]
  have pos: "int W - int (length (cn ! i)) > 0" using assms(4) by simp
  show ?thesis
    using assms(1,2) pos
    by (simp add: columnSeg_def at_def Let_def assms(3) p spec_centre_def spaces_def)
qed

lemma rowSeg_centre:
  assumes "r < length rs" "e < length (rs ! r)" "e < length ws" "r < length strs"
    "ws ! e = int W" "length (rs ! r ! e) \<le> W" "W < 2147483647"
  shows "rowSeg rs ws r e strs =
     Inr (strs[r := strs ! r @ ''| '' @ spec_centre W (rs ! r ! e) @ '' ''])"
proof -
  note p = pads_in_range [OF assms(6,7)]
  show ?thesis
    using assms(1-4)
    by (simp add: rowSeg_def at_def put_def Let_def assms(5) p spec_centre_def spaces_def)
qed

subsection \<open>The lines of the table, text for text\<close>

lemma spec_centre_exact: "spec_centre (length text) text = text"
  by (simp add: spec_centre_def spaces_def)

lemma concat_upt_Suc:
  "concat (map f [0..<Suc k]) = concat (map f [0..<k]) @ f k"
  by simp

lemma columnSeg_spec:
  assumes "i < length cn" "i < length ws" "ws ! i = int W" "length (cn ! i) \<le> W"
    "W < 2147483647"
  shows "columnSeg cn ws i acc = Inr (acc @ ''| '' @ spec_centre W (cn ! i) @ '' '')"
proof (cases "length (cn ! i) < W")
  case True
  with assms show ?thesis by (intro columnSeg_centre)
next
  case False
  with assms(4) have W: "W = length (cn ! i)" by simp
  have "narrow (int (length (cn ! i)) - int (length (cn ! i))) = 0"
    by (simp add: narrow_def)
  then show ?thesis
    using assms(1,2,3) unfolding W spec_centre_exact
    by (simp add: columnSeg_def at_def Let_def)
qed

lemma mkColumnStr_spec:
  assumes "\<forall>i<length cn. spec_colWidth cn rs i < 2147483647"
  shows "mkColumnStr cn (map (\<lambda>i. int (spec_colWidth cn rs i)) [0..<length cn])
     = Inr (spec_line cn rs cn)"
proof -
  let ?ws = "map (\<lambda>i. int (spec_colWidth cn rs i)) [0..<length cn]"
  let ?seg = "\<lambda>i. ''| '' @ spec_centre (spec_colWidth cn rs i) (cn ! i) @ '' ''"
  let ?P = "\<lambda>k acc. acc = concat (map ?seg [0..<k])"
  have "\<exists>s'. foldE (columnSeg cn ?ws) [0..<length cn] [] = Inr s' \<and> ?P (length cn) s'"
  proof (rule foldE_loop [where P = ?P])
    show "?P 0 []" by simp
    show "0 \<le> length cn" by simp
    show "\<exists>t'. columnSeg cn ?ws j t = Inr t' \<and> ?P (Suc j) t'" if "j < length cn" "?P j t" for j t
    proof -
      have "columnSeg cn ?ws j t = Inr (t @ ?seg j)"
        using that(1) assms by (intro columnSeg_spec) (simp_all add: spec_colWidth_ge_name)
      then show ?thesis using that(2) by (simp only: concat_upt_Suc) simp
    qed
  qed
  then show ?thesis by (simp add: mkColumnStr_def spec_line_def)
qed

lemma rowLine_spec:
  assumes r: "r < length rs" and len: "length (rs ! r) = length cn" and rs: "r < length strs"
    and small: "\<forall>i<length cn. spec_colWidth cn rs i < 2147483647"
  shows "rowLine rs (map (\<lambda>i. int (spec_colWidth cn rs i)) [0..<length cn]) r strs
     = Inr (strs[r := strs ! r @ spec_line cn rs (rs ! r)])"
proof -
  let ?ws = "map (\<lambda>i. int (spec_colWidth cn rs i)) [0..<length cn]"
  let ?seg = "\<lambda>i. ''| '' @ spec_centre (spec_colWidth cn rs i) (rs ! r ! i) @ '' ''"
  let ?P = "\<lambda>k t. t = strs[r := strs ! r @ concat (map ?seg [0..<k])]"
  have "\<exists>s'. foldE (rowSeg rs ?ws r) [0..<length cn] strs = Inr s' \<and> ?P (length cn) s'"
  proof (rule foldE_loop [where P = ?P])
    show "?P 0 strs" by simp
    show "0 \<le> length cn" by simp
    show "\<exists>t'. rowSeg rs ?ws r e t = Inr t' \<and> ?P (Suc e) t'" if "e < length cn" "?P e t" for e t
    proof -
      have "rs ! r \<in> set rs" using r by simp
      then have "length (rs ! r ! e) \<le> spec_colWidth cn rs e" by (rule spec_colWidth_ge_cell)
      then have "rowSeg rs ?ws r e t = Inr (t[r := t ! r @ ?seg e])"
        using that r len rs small by (intro rowSeg_centre) simp_all
      moreover have "t[r := t ! r @ ?seg e] = strs[r := strs ! r @ concat (map ?seg [0..<Suc e])]"
        using that(2) rs by (simp only: concat_upt_Suc) simp
      ultimately show ?thesis by simp
    qed
  qed
  then have "foldE (rowSeg rs ?ws r) [0..<length cn] strs
      = Inr (strs[r := strs ! r @ concat (map ?seg [0..<length cn])])" by simp
  then show ?thesis using r len rs
    by (simp add: rowLine_def at_def put_def spec_line_def)
qed

lemma mkRowStrs_spec:
  assumes "\<forall>row\<in>set rs. length row = length cn"
    and small: "\<forall>i<length cn. spec_colWidth cn rs i < 2147483647"
  shows "mkRowStrs rs (map (\<lambda>i. int (spec_colWidth cn rs i)) [0..<length cn])
     = Inr (map (spec_line cn rs) rs)"
proof -
  let ?ws = "map (\<lambda>i. int (spec_colWidth cn rs i)) [0..<length cn]"
  let ?P = "\<lambda>k t. length t = length rs
     \<and> (\<forall>j<length rs. t ! j = (if j < k then spec_line cn rs (rs ! j) else []))"
  have "\<exists>s'. foldE (rowLine rs ?ws) [0..<length rs] (replicate (length rs) []) = Inr s'
          \<and> ?P (length rs) s'"
  proof (rule foldE_loop [where P = ?P])
    show "?P 0 (replicate (length rs) [])" by simp
    show "0 \<le> length rs" by simp
    show "\<exists>t'. rowLine rs ?ws r t = Inr t' \<and> ?P (Suc r) t'" if "r < length rs" "?P r t" for r t
    proof -
      have "length (rs ! r) = length cn" using assms that(1) by simp
      then have "rowLine rs ?ws r t = Inr (t[r := t ! r @ spec_line cn rs (rs ! r)])"
        using that small by (intro rowLine_spec) simp_all
      moreover have "?P (Suc r) (t[r := t ! r @ spec_line cn rs (rs ! r)])"
        using that by (auto simp: nth_list_update less_Suc_eq)
      ultimately show ?thesis by blast
    qed
  qed
  then obtain strs where strs: "mkRowStrs rs ?ws = Inr strs" "length strs = length rs"
    "\<forall>j<length rs. strs ! j = spec_line cn rs (rs ! j)"
    by (auto simp: mkRowStrs_def)
  have "strs = map (spec_line cn rs) rs"
    using strs(2,3) by (intro nth_equalityI) simp_all
  then show ?thesis using strs(1) by simp
qed

text \<open>
  The format data that \<open>Print\<close> builds for a table whose rows fit its columns, whose
  total width is an \<^verbatim>\<open>int\<close> and whose title fits the width.
\<close>

lemma buildFormat_spec:
  assumes ar: "\<forall>row\<in>set (rows s). length row = length (columnNames s)"
    and small: "spec_totalWidth (columnNames s) (rows s) \<le> 2147483647"
    and fits: "length (title s) + 4 \<le> spec_totalWidth (columnNames s) (rows s)"
  shows "buildFormat s =
     Inr (s\<lparr>maxColumnWidths :=
              map (\<lambda>i. int (spec_colWidth (columnNames s) (rows s) i)) [0..<length (columnNames s)],
            fullDividerStr := spec_divider (columnNames s) (rows s),
            titleStr := spec_titleLine (title s) (columnNames s) (rows s),
            columnStr := spec_line (columnNames s) (rows s) (columnNames s),
            rowStrs := map (spec_line (columnNames s) (rows s)) (rows s)\<rparr>)"
proof -
  let ?cn = "columnNames s" and ?rs = "rows s"
  let ?ws = "map (\<lambda>i. int (spec_colWidth ?cn ?rs i)) [0..<length ?cn]"
  let ?tw = "spec_totalWidth ?cn ?rs"
  have cw: "\<forall>i<length ?cn. spec_colWidth ?cn ?rs i < 2147483647"
    using spec_colWidth_le_total [of _ ?cn ?rs] small by fastforce
  then have cw': "\<forall>i<length ?cn. spec_colWidth ?cn ?rs i \<le> 2147483647"
    by fastforce
  have tw: "tableWidthOf ?ws = Inr (int ?tw)" using small by (rule tableWidthOf_spec)
  have w: "computeWidths ?cn ?rs (maxColumnWidths s) = Inr ?ws"
    using ar cw' by (intro computeWidths_ok) simp_all
  have d: "mkString (int ?tw) CHR ''-'' = Inr (spec_divider ?cn ?rs)"
    by (simp add: mkString_def spec_divider_def)
  have t: "mkTitleStr (int ?tw) (title s) = Inr (spec_titleLine (title s) ?cn ?rs)"
    unfolding spec_titleLine_def using fits small by (rule mkTitleStr_centre(3))
  show ?thesis
    by (simp add: buildFormat_def w tw d t mkColumnStr_spec [OF cw] mkRowStrs_spec [OF ar cw])
qed

subsection \<open>Their lengths and their bytes\<close>

lemma length_spec_centre: "length text \<le> W \<Longrightarrow> length (spec_centre W text) = W"
  by (simp add: spec_centre_def spaces_def)

lemma set_spec_centre: "set (spec_centre W text) \<subseteq> insert CHR '' '' (set text)"
  by (auto simp: spec_centre_def spaces_def)

lemma length_concat_upt:
  "length (concat (map f [0..<n])) = sum_list (map (\<lambda>i. length (f i)) [0..<n])"
  by (simp add: length_concat comp_def)

lemma length_spec_line:
  assumes "\<forall>i<length cn. length (texts ! i) \<le> spec_colWidth cn rs i"
  shows "length (spec_line cn rs texts) = spec_totalWidth cn rs"
proof -
  let ?seg = "\<lambda>i. ''| '' @ spec_centre (spec_colWidth cn rs i) (texts ! i) @ '' ''"
  have "length (?seg i) = spec_colWidth cn rs i + 3" if "i < length cn" for i
    using assms that by (simp add: length_spec_centre)
  then have "map (\<lambda>i. length (?seg i)) [0..<length cn]
      = map (\<lambda>i. spec_colWidth cn rs i + 3) [0..<length cn]"
    by (intro map_cong) auto
  then have "length (concat (map ?seg [0..<length cn]))
      = sum_list (map (\<lambda>i. spec_colWidth cn rs i + 3) [0..<length cn])"
    by (simp only: length_concat_upt)
  then show ?thesis
    unfolding spec_line_def spec_totalWidth_def by simp
qed

lemma set_spec_line:
  assumes "length cn \<le> length texts" and "c \<in> set (spec_line cn rs texts)"
  shows "c = CHR ''|'' \<or> c = CHR '' '' \<or> (\<exists>text\<in>set texts. c \<in> set text)"
proof -
  from assms(2) consider "c = CHR ''|''"
    | i where "i < length cn" "c \<in> set (''| '' @ spec_centre (spec_colWidth cn rs i) (texts ! i) @ '' '')"
    unfolding spec_line_def by (auto split: if_splits)
  then show ?thesis
  proof cases
    case 1
    then show ?thesis by simp
  next
    case 2
    then consider "c = CHR ''|''" | "c = CHR '' ''"
      | "c \<in> set (spec_centre (spec_colWidth cn rs i) (texts ! i))" by auto
    then show ?thesis
    proof cases
      case 3
      with set_spec_centre [of "spec_colWidth cn rs i" "texts ! i"]
      have "c = CHR '' '' \<or> c \<in> set (texts ! i)" by auto
      moreover have "texts ! i \<in> set texts" using 2(1) assms(1) by simp
      ultimately show ?thesis by blast
    qed simp_all
  qed
qed

lemma length_spec_render:
  "length (spec_render t cn rs) = 6 + length rs"
  by (simp add: spec_render_def)

lemma lengths_spec_render:
  assumes ar: "\<forall>row\<in>set rs. length row = length cn"
    and fits: "length t + 4 \<le> spec_totalWidth cn rs"
  shows "\<forall>l\<in>set (spec_render t cn rs). length l = spec_totalWidth cn rs"
proof -
  have "length (spec_line cn rs cn) = spec_totalWidth cn rs"
    by (intro length_spec_line) (simp add: spec_colWidth_ge_name)
  moreover have "length (spec_line cn rs row) = spec_totalWidth cn rs" if "row \<in> set rs" for row
    using that by (intro length_spec_line) (simp add: spec_colWidth_ge_cell)
  moreover have "length (spec_titleLine t cn rs) = spec_totalWidth cn rs"
    using fits by (simp add: spec_titleLine_def length_spec_centre)
  moreover have "length (spec_divider cn rs) = spec_totalWidth cn rs"
    by (simp add: spec_divider_def)
  ultimately show ?thesis by (auto simp: spec_render_def)
qed

lemma chars_spec_render:
  assumes ar: "\<forall>row\<in>set rs. length row = length cn"
    and l: "l \<in> set (spec_render t cn rs)" and c: "c \<in> set l"
  shows "c = CHR ''-'' \<or> c = CHR ''|'' \<or> c = CHR '' '' \<or> c \<in> set t
     \<or> (\<exists>name\<in>set cn. c \<in> set name)
     \<or> (\<exists>row\<in>set rs. \<exists>cell\<in>set row. c \<in> set cell)"
proof -
  from l consider "l = spec_divider cn rs" | "l = spec_titleLine t cn rs" | "l = spec_line cn rs cn"
    | row where "row \<in> set rs" "l = spec_line cn rs row"
    unfolding spec_render_def by auto
  then show ?thesis
  proof cases
    case 1
    then have "c = CHR ''-''" using c by (simp add: spec_divider_def)
    then show ?thesis by simp
  next
    case 2
    then have "c = CHR ''|'' \<or> c = CHR '' '' \<or> c \<in> set (spec_centre (spec_totalWidth cn rs - 4) t)"
      using c by (auto simp: spec_titleLine_def)
    moreover have "c \<in> set (spec_centre (spec_totalWidth cn rs - 4) t) \<Longrightarrow> c = CHR '' '' \<or> c \<in> set t"
      using set_spec_centre [of "spec_totalWidth cn rs - 4" t] by auto
    ultimately show ?thesis by blast
  next
    case 3
    with set_spec_line [of cn cn c rs] c
    have "c = CHR ''|'' \<or> c = CHR '' '' \<or> (\<exists>text\<in>set cn. c \<in> set text)" by simp
    then show ?thesis by blast
  next
    case 4
    then have "length cn \<le> length row" using ar by simp
    from set_spec_line [OF this, of c rs] 4 c
    have "c = CHR ''|'' \<or> c = CHR '' '' \<or> (\<exists>text\<in>set row. c \<in> set text)" by simp
    then show ?thesis using 4(1) by blast
  qed
qed

text \<open>
  A string without NUL is written as it is, and lines without line breaks, each written
  with its line break, are the lines of the output.
\<close>

lemma c_str_nulFree: "CHR 0x00 \<notin> set str \<Longrightarrow> c_str str = str"
  by (auto simp: c_str_def)

lemma splitLines_line:
  "CHR 0x0A \<notin> set l \<Longrightarrow> splitLines cur (l @ CHR 0x0A # rest) = (cur @ l) # splitLines [] rest"
  by (induction l arbitrary: cur) auto

lemma splitLines_lines:
  "\<forall>l\<in>set ls. CHR 0x0A \<notin> set l \<Longrightarrow>
     splitLines [] (concat (map (\<lambda>l. l @ [CHR 0x0A]) ls)) = ls"
  by (induction ls) (simp_all add: splitLines_line)

lemma stdoutOf_Lines: "stdoutOf (map Line ls) = concat (map (\<lambda>l. c_str l @ [CHR 0x0A]) ls)"
  by (simp add: stdoutOf_def comp_def)

lemma stdoutOf_nulFree:
  "\<forall>l\<in>set ls. CHR 0x00 \<notin> set l \<Longrightarrow>
     stdoutOf (map Line ls) = concat (map (\<lambda>l. l @ [CHR 0x0A]) ls)"
  unfolding stdoutOf_Lines
  by (rule arg_cong [where f = concat]) (simp add: c_str_nulFree)

lemma stdoutLines_plain:
  assumes "\<forall>l\<in>set ls. CHR 0x00 \<notin> set l" "\<forall>l\<in>set ls. CHR 0x0A \<notin> set l"
  shows "stdoutLines (map Line ls) = ls"
  unfolding stdoutLines_def stdoutOf_nulFree [OF assms(1)]
  using assms(2) by (rule splitLines_lines)

section \<open>No index out of range\<close>

text \<open>
  When every row has exactly as many cells as there are columns, \<open>Print\<close> may end by a
  signed overflow or by \<^verbatim>\<open>std::length_error\<close>, but every index it uses is in range.
\<close>

lemma andThen_in_bounds:
  assumes "m \<noteq> Inl OutOfBounds" and "\<And>x. m = Inr x \<Longrightarrow> f x \<noteq> Inl OutOfBounds"
  shows "andThen m f \<noteq> Inl OutOfBounds"
  using assms by (cases m) simp_all

lemma foldE_list_in_bounds:
  assumes "\<And>x t. f x t \<noteq> Inl OutOfBounds"
  shows "foldE f xs s \<noteq> Inl OutOfBounds"
proof (induction xs arbitrary: s)
  case Nil
  show ?case by simp
next
  case (Cons x xs)
  show ?case unfolding foldE.simps
    by (rule andThen_in_bounds) (simp_all add: assms Cons.IH)
qed

lemma tableWidthOf_in_bounds: "tableWidthOf ws \<noteq> Inl OutOfBounds"
proof -
  have "addWidth w t \<noteq> Inl OutOfBounds" for w t
    unfolding addWidth_def by (intro andThen_in_bounds intResult_not_oob)
  then have "foldE addWidth ws 0 \<noteq> Inl OutOfBounds"
    by (rule foldE_list_in_bounds)
  then show ?thesis
    unfolding tableWidthOf_def by (intro andThen_in_bounds intResult_not_oob)
qed

lemma mkTitleStr_in_bounds: "mkTitleStr tw t \<noteq> Inl OutOfBounds"
proof -
  have d: "titleLengthDiff tw t \<noteq> Inl OutOfBounds"
    unfolding titleLengthDiff_def by (intro andThen_in_bounds intResult_not_oob) simp
  have "titleNumPreSpace tw t \<noteq> Inl OutOfBounds"
    unfolding titleNumPreSpace_def using d by (intro andThen_in_bounds) simp_all
  moreover have "titleNumPostSpace tw t \<noteq> Inl OutOfBounds"
    unfolding titleNumPostSpace_def using d
    by (intro andThen_in_bounds intResult_not_oob) simp_all
  ultimately show ?thesis
    unfolding mkTitleStr_def by (intro andThen_in_bounds mkString_not_oob) simp_all
qed

lemma columnSeg_in_bounds:
  assumes "i < length cn" "i < length ws"
  shows "columnSeg cn ws i acc \<noteq> Inl OutOfBounds"
proof -
  have "(if d > 0 then
         andThen (intResult (d + 1)) (\<lambda>x.
         andThen (mkString (cdiv d 2) CHR '' '') (\<lambda>preStr.
         andThen (mkString (cdiv x 2) CHR '' '') (\<lambda>postStr.
           Inr (acc @ ''| '' @ preStr @ name @ postStr @ '' ''))))
       else Inr (acc @ ''| '' @ name @ '' '')) \<noteq> Inl OutOfBounds" for d :: int and name
    by (simp add: intResult_def mkString_def)
  then show ?thesis using assms by (simp add: columnSeg_def at_def Let_def)
qed

lemma mkColumnStr_in_bounds:
  assumes "length ws = length cn"
  shows "mkColumnStr cn ws \<noteq> Inl OutOfBounds"
proof -
  have "foldE (columnSeg cn ws) [0..<length cn] [] \<noteq> Inl OutOfBounds
      \<and> (\<forall>s'. foldE (columnSeg cn ws) [0..<length cn] [] = Inr s' \<longrightarrow> True)"
    by (rule foldE_in_bounds [where P = "\<lambda>_ _. True"]) (simp_all add: columnSeg_in_bounds assms)
  then show ?thesis
    unfolding mkColumnStr_def by (intro andThen_in_bounds) simp_all
qed

lemma rowSeg_in_bounds:
  assumes "r < length rs" "e < length (rs ! r)" "e < length ws" "r < length strs"
  shows "rowSeg rs ws r e strs \<noteq> Inl OutOfBounds
     \<and> (\<forall>strs'. rowSeg rs ws r e strs = Inr strs' \<longrightarrow> length strs' = length strs)"
proof -
  have "andThen (intResult (d + 1)) (\<lambda>x.
       andThen (mkString (cdiv d 2) CHR '' '') (\<lambda>preStr.
       andThen (mkString (cdiv x 2) CHR '' '') (\<lambda>postStr.
         Inr (strs[r := strs ! r @ ''| '' @ preStr @ cell @ postStr @ '' ''])))) \<noteq> Inl OutOfBounds
     \<and> (\<forall>strs'. andThen (intResult (d + 1)) (\<lambda>x.
       andThen (mkString (cdiv d 2) CHR '' '') (\<lambda>preStr.
       andThen (mkString (cdiv x 2) CHR '' '') (\<lambda>postStr.
         Inr (strs[r := strs ! r @ ''| '' @ preStr @ cell @ postStr @ '' ''])))) = Inr strs'
        \<longrightarrow> length strs' = length strs)" for d :: int and cell
    by (auto simp: intResult_def mkString_def split: if_splits)
  then show ?thesis using assms by (simp add: rowSeg_def at_def put_def Let_def)
qed

lemma rowLine_in_bounds:
  assumes "r < length rs" "length (rs ! r) = length ws" "r < length strs"
  shows "rowLine rs ws r strs \<noteq> Inl OutOfBounds
     \<and> (\<forall>strs'. rowLine rs ws r strs = Inr strs' \<longrightarrow> length strs' = length strs)"
proof -
  let ?P = "\<lambda>(k::nat) t. length t = length strs"
  have l: "foldE (rowSeg rs ws r) [0..<length ws] strs \<noteq> Inl OutOfBounds
      \<and> (\<forall>s'. foldE (rowSeg rs ws r) [0..<length ws] strs = Inr s' \<longrightarrow> ?P (length ws) s')"
  proof (rule foldE_in_bounds [where P = ?P])
    show "?P 0 strs" by simp
    show "0 \<le> length ws" by simp
    show "rowSeg rs ws r e t \<noteq> Inl OutOfBounds \<and> (\<forall>t'. rowSeg rs ws r e t = Inr t' \<longrightarrow> ?P (Suc e) t')"
      if "e < length ws" "?P e t" for e t
      using rowSeg_in_bounds [of r rs e ws t] that assms by simp
  qed
  have "rowLine rs ws r strs =
      andThen (foldE (rowSeg rs ws r) [0..<length ws] strs) (\<lambda>strs'.
      andThen (at strs' r) (\<lambda>cur. put strs' r (cur @ ''|'')))"
    using assms(1,2) by (simp add: rowLine_def at_def)
  then show ?thesis using l assms(3)
    by (cases "foldE (rowSeg rs ws r) [0..<length ws] strs") (auto simp: at_def put_def)
qed

lemma mkRowStrs_in_bounds:
  assumes "\<forall>row\<in>set rs. length row = length ws"
  shows "mkRowStrs rs ws \<noteq> Inl OutOfBounds"
proof -
  let ?P = "\<lambda>(k::nat) (t::string list). length t = length rs"
  have "foldE (rowLine rs ws) [0..<length rs] (replicate (length rs) []) \<noteq> Inl OutOfBounds
      \<and> (\<forall>s'. foldE (rowLine rs ws) [0..<length rs] (replicate (length rs) []) = Inr s'
            \<longrightarrow> ?P (length rs) s')"
  proof (rule foldE_in_bounds [where P = ?P])
    show "?P 0 (replicate (length rs) [])" by simp
    show "0 \<le> length rs" by simp
    show "rowLine rs ws r t \<noteq> Inl OutOfBounds \<and> (\<forall>t'. rowLine rs ws r t = Inr t' \<longrightarrow> ?P (Suc r) t')"
      if "r < length rs" "?P r t" for r t
      using rowLine_in_bounds [of r rs ws t] that assms by simp
  qed
  then show ?thesis by (simp add: mkRowStrs_def)
qed

lemma buildFormat_in_bounds:
  assumes ar: "\<forall>row\<in>set (rows s). length row = length (columnNames s)"
  shows "buildFormat s \<noteq> Inl OutOfBounds"
proof -
  from computeWidths_total [of "rows s" "columnNames s" "maxColumnWidths s"] ar
  obtain ws where ws: "computeWidths (columnNames s) (rows s) (maxColumnWidths s) = Inr ws"
    "length ws = length (columnNames s)" by auto
  have c: "mkColumnStr (columnNames s) ws \<noteq> Inl OutOfBounds"
    using ws(2) by (rule mkColumnStr_in_bounds)
  have r: "mkRowStrs (rows s) ws \<noteq> Inl OutOfBounds"
    using ar ws(2) by (intro mkRowStrs_in_bounds) simp
  show ?thesis
    unfolding buildFormat_def ws(1) andThen_Inr
    by (intro andThen_in_bounds tableWidthOf_in_bounds mkString_not_oob mkTitleStr_in_bounds
        c r) simp
qed

lemma Print_in_bounds:
  assumes ar: "\<forall>row\<in>set (rows s). length row = length (columnNames s)"
  shows "Print s \<noteq> Inl OutOfBounds"
  using buildFormat_in_bounds [OF ar]
  by (auto simp: Print_def andThen_def split: sum.splits)

section \<open>The cached format data of a reachable table\<close>

text \<open>
  Every call either leaves the table as it was, or marks it as altered, or is a \<open>Print\<close>
  that has just built the format data. So a reachable table that is not marked as
  altered is the new table or holds format data built from its own title, columns and
  rows.
\<close>

lemma buildFormat_fields:
  assumes "buildFormat s = Inr s1"
  shows "\<exists>ws d t c strs.
     computeWidths (columnNames s) (rows s) (maxColumnWidths s) = Inr ws
     \<and> s1 = s\<lparr>maxColumnWidths := ws, fullDividerStr := d, titleStr := t, columnStr := c,
              rowStrs := strs\<rparr>"
  using assms unfolding buildFormat_def Let_def andThen_eq_Inr by blast

lemma step_cache:
  assumes "step c s = Inr (out, s')"
  shows "s' = s \<or> alteredState s'
     \<or> (alteredState s \<and> (\<exists>s1. buildFormat s = Inr s1 \<and> s' = s1\<lparr>alteredState := False\<rparr>))"
proof (cases c)
  case CallPrint
  then show ?thesis using assms
    by (auto simp: Print_def andThen_eq_Inr split: if_splits)
qed (use assms in \<open>auto simp: SetTitle_def AddColumn_def AddRow_def AddRows_eq Reset_def split: if_splits\<close>)

lemma reachable_cache:
  "reachable s \<Longrightarrow>
     alteredState s \<or> s = newTable \<or> (\<exists>s0. buildFormat s0 = Inr (s\<lparr>alteredState := True\<rparr>))"
proof (induction rule: reachable.induct)
  case reachable_new
  then show ?case by simp
next
  case (reachable_step s c out s')
  from step_cache [OF reachable_step.hyps(2)]
  consider "s' = s" | "alteredState s'"
    | s1 where "alteredState s" "buildFormat s = Inr s1" "s' = s1\<lparr>alteredState := False\<rparr>"
    by blast
  then show ?case
  proof cases
    case 1
    then show ?thesis using reachable_step.IH by simp
  next
    case 2
    then show ?thesis by simp
  next
    case 3
    from buildFormat_fields [OF 3(2)] 3(1) have "alteredState s1" by auto
    then have "s'\<lparr>alteredState := True\<rparr> = s1" using 3(3) by simp
    then show ?thesis using 3(2) by auto
  qed
qed

lemma format_of_clean:
  assumes "reachable s" "\<not> alteredState s" "rows s \<noteq> []"
  shows "\<exists>s0. buildFormat s0 = Inr (s\<lparr>alteredState := True\<rparr>)
     \<and> title s0 = title s \<and> columnNames s0 = columnNames s \<and> rows s0 = rows s"
proof -
  have "s \<noteq> newTable" using assms(3) by (auto simp: newTable_def)
  with reachable_cache [OF assms(1)] assms(2)
  obtain s0 where s0: "buildFormat s0 = Inr (s\<lparr>alteredState := True\<rparr>)" by blast
  from buildFormat_fields [OF this]
  obtain ws d t c strs where "s\<lparr>alteredState := True\<rparr> =
      s0\<lparr>maxColumnWidths := ws, fullDividerStr := d, titleStr := t, columnStr := c,
              rowStrs := strs\<rparr>" by blast
  then have "title (s\<lparr>alteredState := True\<rparr>) = title s0"
    "columnNames (s\<lparr>alteredState := True\<rparr>) = columnNames s0"
    "rows (s\<lparr>alteredState := True\<rparr>) = rows s0" by simp_all
  then show ?thesis using s0 by auto
qed

lemma reachable_SetTitle: "reachable s \<Longrightarrow> reachable (snd (SetTitle t s))"
  by (rule reachable_step [where c = "CallSetTitle t" and out = "fst (SetTitle t s)"]) simp_all

lemma reachable_AddColumn: "reachable s \<Longrightarrow> reachable (snd (AddColumn c s))"
  by (rule reachable_step [where c = "CallAddColumn c" and out = "fst (AddColumn c s)"]) simp_all

lemma reachable_AddRow: "reachable s \<Longrightarrow> reachable (snd (AddRow r s))"
  by (rule reachable_step [where c = "CallAddRow r" and out = "fst (AddRow r s)"]) simp_all

lemma reachable_AddRows: "reachable s \<Longrightarrow> reachable (snd (AddRows rs s))"
  by (rule reachable_step [where c = "CallAddRows rs" and out = "fst (AddRows rs s)"]) simp_all

lemma reachable_Reset: "reachable s \<Longrightarrow> reachable (Reset s)"
  by (rule reachable_step [where c = CallReset and out = "[]"]) simp_all


lemma emitTable_alteredState [simp]: "emitTable (s\<lparr>alteredState := b\<rparr>) = emitTable s"
  by (simp add: emitTable_def)


text \<open>
  What \<open>Print\<close> emits for a reachable table that passes its guard, whose rows fit its
  columns, whose total width is an \<^verbatim>\<open>int\<close> and whose title fits the width.
\<close>

lemma Print_spec:
  assumes re: "reachable s"
    and pre: "title s \<noteq> []" "columnNames s \<noteq> []" "rows s \<noteq> []"
    and ar: "\<forall>row\<in>set (rows s). length row = length (columnNames s)"
    and small: "spec_totalWidth (columnNames s) (rows s) \<le> 2147483647"
    and fits: "length (title s) + 4 \<le> spec_totalWidth (columnNames s) (rows s)"
  shows "\<exists>s'. Print s = Inr (map Line (spec_render (title s) (columnNames s) (rows s)), s')"
proof (cases "alteredState s")
  case True
  then show ?thesis using pre buildFormat_spec [OF ar small fits]
    by (simp add: Print_def emitTable_def spec_render_def)
next
  case False
  from format_of_clean [OF re False pre(3)]
  obtain s0 where s0: "buildFormat s0 = Inr (s\<lparr>alteredState := True\<rparr>)"
    "title s0 = title s" "columnNames s0 = columnNames s" "rows s0 = rows s" by blast
  from buildFormat_spec [of s0] ar small fits s0
  have "s\<lparr>alteredState := True\<rparr> = s0\<lparr>maxColumnWidths :=
              map (\<lambda>i. int (spec_colWidth (columnNames s) (rows s) i)) [0..<length (columnNames s)],
            fullDividerStr := spec_divider (columnNames s) (rows s),
            titleStr := spec_titleLine (title s) (columnNames s) (rows s),
            columnStr := spec_line (columnNames s) (rows s) (columnNames s),
            rowStrs := map (spec_line (columnNames s) (rows s)) (rows s)\<rparr>" (is "?l = ?r")
    by simp
  then have "fullDividerStr ?l = fullDividerStr ?r" "titleStr ?l = titleStr ?r"
    "columnStr ?l = columnStr ?r" "rowStrs ?l = rowStrs ?r" by simp_all
  then have "emitTable s = map Line (spec_render (title s) (columnNames s) (rows s))"
    by (simp add: emitTable_def spec_render_def)
  then show ?thesis using False pre by (simp add: Print_def)
qed

section \<open>Reset\<close>

text \<open>
  A table after \<open>Reset\<close> and a new table differ in the flag \<open>alteredState\<close> and in the
  strings of the last \<open>Print\<close>, and no call tells them apart: as long as there is
  nothing to print, \<open>Print\<close> reads neither, and every call that adds something to print
  sets the flag in both.
\<close>

lemma buildFormat_sameContent:
  assumes "sameContent s t" "alteredState s = alteredState t"
  shows "(\<exists>e. buildFormat s = Inl e \<and> buildFormat t = Inl e)
     \<or> (\<exists>s1. buildFormat s = Inr s1 \<and> buildFormat t = Inr s1)"
proof -
  have eq: "s\<lparr>maxColumnWidths := ws, fullDividerStr := d, titleStr := ts, columnStr := c,
              rowStrs := strs\<rparr>
      = t\<lparr>maxColumnWidths := ws, fullDividerStr := d, titleStr := ts, columnStr := c,
              rowStrs := strs\<rparr>" for ws d ts c strs
    using assms by (cases s, cases t) (simp add: sameContent_def)
  have f: "title s = title t" "columnNames s = columnNames t" "rows s = rows t"
    "maxColumnWidths s = maxColumnWidths t"
    using assms(1) by (simp_all add: sameContent_def)
  have "buildFormat s = buildFormat t"
    unfolding buildFormat_def f eq ..
  then show ?thesis by (cases "buildFormat t") simp_all
qed

lemma Print_alike:
  assumes "alike s t"
  shows "(\<exists>e. Print s = Inl e \<and> Print t = Inl e)
     \<or> (\<exists>out s' t'. Print s = Inr (out, s') \<and> Print t = Inr (out, t') \<and> alike s' t')"
proof (cases "s = t")
  case True
  then show ?thesis by (cases "Print t") (auto simp: alike_def)
next
  case False
  with assms have sc: "sameContent s t" and a: "alteredState s"
    and b: "alteredState t \<or> (title t = [] \<and> columnNames t = [] \<and> rows t = [])"
    by (simp_all add: alike_def)
  have f: "title s = title t" "columnNames s = columnNames t" "rows s = rows t"
    using sc by (simp_all add: sameContent_def)
  show ?thesis
  proof (cases "title t = [] \<or> columnNames t = [] \<or> rows t = []")
    case True
    then show ?thesis using assms f by (auto simp: Print_def)
  next
    case guard: False
    with b have at: "alteredState t" by blast
    from buildFormat_sameContent [OF sc] a at
    consider e where "buildFormat s = Inl e" "buildFormat t = Inl e"
      | s1 where "buildFormat s = Inr s1" "buildFormat t = Inr s1" by auto
    then show ?thesis
    proof cases
      case 1
      then show ?thesis using guard f a at by (simp add: Print_def)
    next
      case 2
      then show ?thesis using guard f a at by (simp add: Print_def alike_def)
    qed
  qed
qed

lemma step_alike:
  assumes "alike s t"
  shows "(\<exists>e. step c s = Inl e \<and> step c t = Inl e)
     \<or> (\<exists>out s' t'. step c s = Inr (out, s') \<and> step c t = Inr (out, t') \<and> alike s' t')"
proof (cases c)
  case CallPrint
  then show ?thesis using Print_alike [OF assms] by simp
next
  case (CallSetTitle x)
  then show ?thesis using assms by (auto simp: alike_def sameContent_def SetTitle_def)
next
  case (CallAddColumn x)
  then show ?thesis using assms by (auto simp: alike_def sameContent_def AddColumn_def)
next
  case (CallAddRow x)
  then show ?thesis using assms by (auto simp: alike_def sameContent_def AddRow_def)
next
  case (CallAddRows x)
  then show ?thesis using assms by (auto simp: alike_def sameContent_def AddRows_eq)
next
  case CallReset
  then show ?thesis using assms by (auto simp: alike_def sameContent_def Reset_def)
qed

lemma run_alike:
  "alike s t \<Longrightarrow> observed (run cs s) = observed (run cs t)"
proof (induction cs arbitrary: s t)
  case Nil
  then show ?case by (simp add: observed_def)
next
  case (Cons c cs)
  from step_alike [OF Cons.prems, of c]
  consider e where "step c s = Inl e" "step c t = Inl e"
    | out s' t' where "step c s = Inr (out, s')" "step c t = Inr (out, t')" "alike s' t'"
    by blast
  then show ?case
  proof cases
    case 1
    then show ?thesis by (simp add: observed_def)
  next
    case 2
    from Cons.IH [OF 2(3)] have "observed (run cs s') = observed (run cs t')" .
    then show ?thesis using 2(1,2)
      by (cases "run cs s'"; cases "run cs t'") (simp add: observed_def)
  qed
qed

lemma alike_Reset: "alike (Reset s) newTable"
  by (simp add: alike_def sameContent_def Reset_def resize_def newTable_def)

section \<open>Strings too long for an \<^verbatim>\<open>int\<close>\<close>

text \<open>
  A cell of \<open>2 ^ 31\<close> characters has the length \<open>INT_MIN\<close> once converted to \<^verbatim>\<open>int\<close>: the
  width scan does not take it for the longest, and the row line asks for a negative
  number of spaces. A cell of \<open>2 ^ 32 + 1\<close> characters has the length 1 once converted.
\<close>

lemma long_cell_widths:
  assumes "length c = 2147483648"
  shows "computeWidths [''A''] [[c]] ws0 = Inr [1]"
    and "spec_colWidth [''A''] [[c]] 0 = 2147483648"
proof -
  have n: "narrow 2147483648 = - 2147483648" "narrow 1 = 1"
    by (simp_all add: narrow_def)
  show "computeWidths [''A''] [[c]] ws0 = Inr [1]"
    by (cases ws0)
      (simp_all add: computeWidths_def resize_def initWidth_def scanRow_def scanCell_def
        at_def put_def assms n)
  show "spec_colWidth [''A''] [[c]] 0 = 2147483648"
    by (simp add: spec_colWidth_def assms)
qed

lemma tableWidthOf_one: "tableWidthOf [1] = Inr 5"
  by (simp add: tableWidthOf_def addWidth_def intResult_def INT_MIN_def INT_MAX_def)

lemma title_T: "mkTitleStr 5 ''T'' = Inr ''| T |''"
  by (simp add: mkTitleStr_def titleNumPreSpace_def titleNumPostSpace_def titleLengthDiff_def
      intResult_def INT_MIN_def INT_MAX_def narrow_def cdiv_def mkString_def)

lemma column_A: "mkColumnStr [''A''] [1] = Inr ''| A |''"
  by (simp add: mkColumnStr_def columnSeg_def at_def narrow_def)

lemma long_cell_Print:
  assumes "length c = 2147483648"
  shows "Print (snd (AddRow [c] (snd (AddColumn ''A'' (snd (SetTitle ''T'' newTable))))))
     = Inl LengthError"
proof -
  let ?s = "snd (AddRow [c] (snd (AddColumn ''A'' (snd (SetTitle ''T'' newTable)))))"
  have s: "title ?s = ''T''" "columnNames ?s = [''A'']" "rows ?s = [[c]]" "alteredState ?s"
    by (simp_all add: AddRow_def AddColumn_def SetTitle_def newTable_def)
  have d: "narrow (- 2147483647) = - 2147483647"
    by (simp add: narrow_def)
  have r: "mkRowStrs [[c]] [1] = Inl LengthError"
    by (simp add: mkRowStrs_def rowLine_def rowSeg_def at_def assms d intResult_def
        INT_MIN_def INT_MAX_def cdiv_def mkString_def Let_def)
  have "buildFormat ?s = Inl LengthError"
    by (simp add: buildFormat_def s long_cell_widths(1) [OF assms] tableWidthOf_one
        mkString_def title_T column_A r)
  then show ?thesis by (simp add: Print_def s)
qed

lemma long_cell_run:
  assumes "length c = 2147483648"
  shows "run [CallSetTitle ''T'', CallAddColumn ''A'', CallAddRow [c], CallPrint] newTable
     = ([], Inl LengthError)"
proof -
  have "step CallPrint (snd (AddRow [c] (snd (AddColumn ''A'' (snd (SetTitle ''T'' newTable))))))
      = Inl LengthError"
    using long_cell_Print [OF assms] by simp
  then show ?thesis
    by (simp add: AddRow_def AddColumn_def SetTitle_def newTable_def)
qed


section \<open>The lines that \<open>Print\<close> emits\<close>

text \<open>
  Claim C1, as stated, fails in five ways. A table with title \<open>T\<close>, one column and one row
  is printed in 7 lines, not in \<open>5 + 1\<close>: three dividers, the title line and the line of
  column names come before the rows, and one more divider after them. With the title
  \<open>TT\<close>, one character more than the columns leave room for, the title line is one
  character longer than the other lines. A cell with a line break in it makes two lines
  of its row line, and a cell with a NUL in it cuts its row line short. With a cell of
  \<open>2 ^ 31\<close> characters \<open>Print\<close> ends in \<^verbatim>\<open>std::length_error\<close> and prints nothing.
\<close>

theorem C1_counterexample:
  "Print (snd (AddRow [''x''] (snd (AddColumn ''A'' (snd (SetTitle ''T'' newTable))))))
     = Inr ([Line ''-----'', Line ''| T |'', Line ''-----'', Line ''| A |'', Line ''-----'',
             Line ''| x |'', Line ''-----''],
            \<lparr>title = ''T'', columnNames = [''A''], rows = [[''x'']],
              startedAddingRows = True, alteredState = False, maxColumnWidths = [1],
              fullDividerStr = ''-----'', titleStr = ''| T |'', columnStr = ''| A |'',
              rowStrs = [''| x |'']\<rparr>)
   \<and> length [Line ''-----'', Line ''| T |'', Line ''-----'', Line ''| A |'', Line ''-----'',
             Line ''| x |'', Line ''-----''] \<noteq> 5 + length [[''x'']]
   \<and> Print (snd (AddRow [''x''] (snd (AddColumn ''A'' (snd (SetTitle ''TT'' newTable))))))
     = Inr ([Line ''-----'', Line ''| TT |'', Line ''-----'', Line ''| A |'', Line ''-----'',
             Line ''| x |'', Line ''-----''],
            \<lparr>title = ''TT'', columnNames = [''A''], rows = [[''x'']],
              startedAddingRows = True, alteredState = False, maxColumnWidths = [1],
              fullDividerStr = ''-----'', titleStr = ''| TT |'', columnStr = ''| A |'',
              rowStrs = [''| x |'']\<rparr>)
   \<and> spec_totalWidth [''A''] [[''x'']] = 5
   \<and> length ''| TT |'' \<noteq> length ''-----''
   \<and> stdoutLines (fst (run [CallSetTitle ''T'', CallAddColumn ''A'',
          CallAddRow [[CHR ''a'', CHR 0x0A, CHR ''b'']], CallPrint] newTable))
     = [''-------'', ''|  T  |'', ''-------'', ''|  A  |'', ''-------'', ''| a'', ''b |'',
        ''-------'']
   \<and> stdoutLines (fst (run [CallSetTitle ''T'', CallAddColumn ''A'',
          CallAddRow [[CHR ''a'', CHR 0x00, CHR ''b'']], CallPrint] newTable))
     = [''-------'', ''|  T  |'', ''-------'', ''|  A  |'', ''-------'', ''| a'', ''-------'']
   \<and> run [CallSetTitle ''T'', CallAddColumn ''A'',
          CallAddRow [replicate 2147483648 CHR ''a''], CallPrint] newTable
     = ([], Inl LengthError)"
proof (intro conjI)
  show "run [CallSetTitle ''T'', CallAddColumn ''A'',
          CallAddRow [replicate 2147483648 CHR ''a''], CallPrint] newTable
     = ([], Inl LengthError)"
    by (rule long_cell_run) (rule length_replicate)
qed code_simp+

text \<open>
  Claim C1, amended. For a table that a program can hold, with a title that is not empty,
  at least one column, at least one row, every row with exactly as many cells as there
  are columns, a title no longer than the total width minus 4, no line break and no NUL
  in any of its strings, and a total width below \<open>2 ^ 31 - 1\<close>, the output of \<open>Print\<close>
  has \<open>6 + rowCount\<close> lines, and each of them is as long as the total width, the sum of
  \<open>w i + 3\<close> over the columns plus 1.
\<close>

theorem C1_rendered_lines:
  assumes "reachable s"
    and "title s \<noteq> []" and "columnNames s \<noteq> []" and "rows s \<noteq> []"
    and "\<forall>row\<in>set (rows s). length row = length (columnNames s)"
    and "length (title s) + 4 \<le> spec_totalWidth (columnNames s) (rows s)"
    and "plainTable s"
    and "spec_totalWidth (columnNames s) (rows s) < 2147483647"
  shows "\<exists>out s'. Print s = Inr (out, s')
     \<and> length (stdoutLines out) = 6 + length (rows s)
     \<and> (\<forall>l\<in>set (stdoutLines out). length l = spec_totalWidth (columnNames s) (rows s))"
proof -
  let ?ls = "spec_render (title s) (columnNames s) (rows s)"
  from Print_spec [OF assms(1-5) less_imp_le [OF assms(8)] assms(6)]
  obtain s' where p: "Print s = Inr (map Line ?ls, s')" by blast
  have plain: "c \<noteq> CHR 0x0A \<and> c \<noteq> CHR 0x00" if "l \<in> set ?ls" "c \<in> set l" for l c
  proof -
    from chars_spec_render [OF assms(5) that]
    consider "c = CHR ''-'' \<or> c = CHR ''|'' \<or> c = CHR '' ''" | "c \<in> set (title s)"
      | name where "name \<in> set (columnNames s)" "c \<in> set name"
      | row cell where "row \<in> set (rows s)" "cell \<in> set row" "c \<in> set cell"
      by blast
    then show ?thesis
    proof cases
      case 1
      then show ?thesis by auto
    next
      case 2
      then show ?thesis using assms(7) by (auto simp: plainTable_def plainText_def)
    next
      case 3
      then show ?thesis using assms(7) by (auto simp: plainTable_def plainText_def list_all_iff)
    next
      case 4
      then show ?thesis using assms(7) by (auto simp: plainTable_def plainText_def list_all_iff)
    qed
  qed
  have "stdoutLines (map Line ?ls) = ?ls"
    by (rule stdoutLines_plain) (use plain in blast)+
  then show ?thesis
    using p length_spec_render [of "title s" "columnNames s" "rows s"]
      lengths_spec_render [OF assms(5,6)] by simp
qed

theorem C1_rendered_lines_witness:
  "reachable (snd (AddRow [''x'', ''yyy''] (snd (AddColumn ''BB'' (snd (AddColumn ''A''
      (snd (SetTitle ''T'' newTable))))))))
   \<and> plainTable (snd (AddRow [''x'', ''yyy''] (snd (AddColumn ''BB'' (snd (AddColumn ''A''
      (snd (SetTitle ''T'' newTable))))))))
   \<and> spec_totalWidth [''A'', ''BB''] [[''x'', ''yyy'']] = 11
   \<and> (\<exists>out s'. Print (snd (AddRow [''x'', ''yyy''] (snd (AddColumn ''BB'' (snd (AddColumn ''A''
      (snd (SetTitle ''T'' newTable)))))))) = Inr (out, s') \<and> length (stdoutLines out) = 7
      \<and> list_all (\<lambda>l. length l = 11) (stdoutLines out))"
proof -
  let ?s = "snd (AddRow [''x'', ''yyy''] (snd (AddColumn ''BB'' (snd (AddColumn ''A''
      (snd (SetTitle ''T'' newTable)))))))"
  have re: "reachable ?s"
    by (intro reachable_AddRow reachable_AddColumn reachable_SetTitle reachable_new)
  have s: "title ?s = ''T''" "columnNames ?s = [''A'', ''BB'']" "rows ?s = [[''x'', ''yyy'']]"
    by (simp_all add: AddRow_def AddColumn_def SetTitle_def newTable_def)
  have tw: "spec_totalWidth [''A'', ''BB''] [[''x'', ''yyy'']] = 11"
    by code_simp
  have pl: "plainTable ?s"
    unfolding plainTable_def s by code_simp
  from C1_rendered_lines [OF re _ _ _ _ _ pl] s tw
  show ?thesis using re pl by (simp add: list_all_iff)
qed

section \<open>The widths that the table holds\<close>




section \<open>The indices that \<open>Print\<close> uses\<close>

text \<open>
  Claim C4. When every row has exactly as many cells as there are columns, no index that
  \<open>Print\<close> uses is outside its vector. \<open>AddRows\<close> can append a row that breaks this:
  after a row with one cell in a table of two columns the width scan reads
  \<open>rows[r][c]\<close> outside the row, and after a row with two cells in a table of one
  column the row line reads \<open>maxColumnWidths[e]\<close> outside the widths.
\<close>

theorem C4_index_accesses:
  "((\<forall>row\<in>set (rows s). length row = length (columnNames s)) \<longrightarrow> Print s \<noteq> Inl OutOfBounds)
   \<and> reachable (snd (AddRows [[''a'']] (snd (AddColumn ''B'' (snd (AddColumn ''A''
        (snd (SetTitle ''T'' newTable))))))))
   \<and> Print (snd (AddRows [[''a'']] (snd (AddColumn ''B'' (snd (AddColumn ''A''
        (snd (SetTitle ''T'' newTable)))))))) = Inl OutOfBounds
   \<and> reachable (snd (AddRows [[''a'', ''b'']] (snd (AddColumn ''A''
        (snd (SetTitle ''T'' newTable))))))
   \<and> Print (snd (AddRows [[''a'', ''b'']] (snd (AddColumn ''A''
        (snd (SetTitle ''T'' newTable)))))) = Inl OutOfBounds"
proof -
  have "Print (snd (AddRows [[''a'']] (snd (AddColumn ''B'' (snd (AddColumn ''A''
        (snd (SetTitle ''T'' newTable)))))))) = Inl OutOfBounds"
    by code_simp
  moreover have "Print (snd (AddRows [[''a'', ''b'']] (snd (AddColumn ''A''
        (snd (SetTitle ''T'' newTable)))))) = Inl OutOfBounds"
    by code_simp
  moreover have "reachable (snd (AddRows [[''a'']] (snd (AddColumn ''B'' (snd (AddColumn ''A''
        (snd (SetTitle ''T'' newTable))))))))"
    "reachable (snd (AddRows [[''a'', ''b'']] (snd (AddColumn ''A''
        (snd (SetTitle ''T'' newTable))))))"
    by (intro reachable_AddRows reachable_AddColumn reachable_SetTitle reachable_new)+
  ultimately show ?thesis using Print_in_bounds [of s] by blast
qed

theorem C4_index_accesses_witness:
  "list_all (\<lambda>row. length row = length [''A''])  [[''x'']]
   \<and> Print (snd (AddRow [''x''] (snd (AddColumn ''A'' (snd (SetTitle ''T'' newTable))))))
       \<noteq> Inl OutOfBounds"
  using C4_index_accesses [of "snd (AddRow [''x''] (snd (AddColumn ''A'' (snd (SetTitle ''T'' newTable)))))"]
  by (simp add: AddRow_def AddColumn_def SetTitle_def newTable_def)

section \<open>The centering rule\<close>




section \<open>The title line\<close>




section \<open>The table that \<open>Reset\<close> returns\<close>

text \<open>
  Claim C7, as stated, fails. \<open>Reset\<close> of the table that the calls
  \<open>SetTitle T\<close>, \<open>AddColumn A\<close>, \<open>AddRow [x]\<close>, \<open>Print\<close> leave behind keeps the divider,
  the title line, the line of column names and the row lines of that \<open>Print\<close>, and the
  result is not the new table: these strings differ, and \<open>alteredState\<close> is set.
\<close>

theorem C7_counterexample:
  "Reset \<lparr>title = ''T'', columnNames = [''A''], rows = [[''x'']],
            startedAddingRows = True, alteredState = False, maxColumnWidths = [1],
            fullDividerStr = ''-----'', titleStr = ''| T |'', columnStr = ''| A |'',
            rowStrs = [''| x |'']\<rparr>
   = \<lparr>title = [], columnNames = [], rows = [],
            startedAddingRows = False, alteredState = True, maxColumnWidths = [],
            fullDividerStr = ''-----'', titleStr = ''| T |'', columnStr = ''| A |'',
            rowStrs = [''| x |'']\<rparr>
   \<and> Reset \<lparr>title = ''T'', columnNames = [''A''], rows = [[''x'']],
            startedAddingRows = True, alteredState = False, maxColumnWidths = [1],
            fullDividerStr = ''-----'', titleStr = ''| T |'', columnStr = ''| A |'',
            rowStrs = [''| x |'']\<rparr> \<noteq> newTable
   \<and> run [CallSetTitle ''T'', CallAddColumn ''A'', CallAddRow [''x''], CallPrint] newTable =
     ([Line ''-----'', Line ''| T |'', Line ''-----'', Line ''| A |'', Line ''-----'',
       Line ''| x |'', Line ''-----''],
      Inr \<lparr>title = ''T'', columnNames = [''A''], rows = [[''x'']],
            startedAddingRows = True, alteredState = False, maxColumnWidths = [1],
            fullDividerStr = ''-----'', titleStr = ''| T |'', columnStr = ''| A |'',
            rowStrs = [''| x |'']\<rparr>)"
  by code_simp

text \<open>
  Claim C7, amended. \<open>Reset\<close> empties the title, the column names, the rows and the
  column widths, clears \<open>startedAddingRows\<close> and sets \<open>alteredState\<close>; and every sequence
  of calls on the table it returns emits the events, and ends in the error if it ends in
  one, that it does on a new table.
\<close>

theorem C7_reset:
  "title (Reset s) = [] \<and> columnNames (Reset s) = [] \<and> rows (Reset s) = []
   \<and> maxColumnWidths (Reset s) = []
   \<and> \<not> startedAddingRows (Reset s) \<and> alteredState (Reset s)
   \<and> observed (run cs (Reset s)) = observed (run cs newTable)"
  using run_alike [OF alike_Reset, of cs s]
  by (simp add: Reset_def resize_def)

end
